theory Spec2Isabelle
  imports Main "HOL-Library.Word"
begin

unbundle bit_operations_syntax

section \<open>Machine types\<close>

text \<open>
  The driver is kernel code for a 64-bit Linux target: \<open>u8\<close> and \<open>u32\<close> are the
  kernel's fixed-width unsigned integers, \<open>size_t\<close>, \<open>dma_addr_t\<close> and user pointers
  are 64 bits wide. All arithmetic on them wraps around, as in C.
\<close>

type_synonym u8 = "8 word"
type_synonym u32 = "32 word"
type_synonym size_t = "64 word"
type_synonym dma_addr_t = "64 word"
type_synonym uaddr = "64 word"

section \<open>The shared header \<open>ioctl_defs.h\<close>\<close>

text \<open>
  \<open>fpgalink.c\<close> includes \<open>ioctl_defs.h\<close>, which is not part of the sources. The
  constants it defines are taken as parameters: every function of the model receives
  them in a record, and no theorem depends on their values beyond what it assumes.
\<close>

record ioctl_defs =
  BUF_SIZE :: nat
  OP_RD :: u32
  OP_WR :: u32
  OP_SD :: u32
  FPGALINK_IOC_MAGIC :: u32
  FPGALINK_IOC_MAXNR :: u32
  FPGALINK_CMDLIST :: u32

text \<open>
  Modelled from the spec: the layout of \<open>struct Cmd\<close> and \<open>struct CmdList\<close>, declared in
  the absent header. The spec gives \<open>Cmd{op: u32, reg: u32, val: u32}\<close> and
  \<open>{numCmds: u32, cmds: ptr}\<close>; the code reads \<open>kc.op\<close>, \<open>kc.reg\<close>, \<open>kc.val\<close>,
  \<open>kl.numCmds\<close> and \<open>kl.cmds\<close>. Three \<open>u32\<close> fields make \<open>sizeof(struct Cmd)\<close> 12.
\<close>

record Cmd =
  op :: u32
  reg :: u32
  val :: u32

record CmdList =
  numCmds :: u32
  cmds :: uaddr

definition sizeof_Cmd :: uaddr where
  "sizeof_Cmd = 12"

section \<open>Error numbers and interrupt results\<close>

definition EFAULT :: int where "EFAULT = 14"
definition EINVAL :: int where "EINVAL = 22"
definition ENOTTY :: int where "ENOTTY = 25"
definition EINTR :: int where "EINTR = 4"
definition ERESTARTSYS :: int where "ERESTARTSYS = 512"

datatype irqreturn_t = IRQ_NONE | IRQ_HANDLED

section \<open>The device behind BAR0\<close>

text \<open>
  \<open>ape->bar[0]\<close> points at the device's register window, an array of 32-bit words.
  The device is not part of the driver; it is modelled as a register file in which a
  location either stores what is written to it (\<open>writable\<close>) or ignores writes.
  Every \<open>iowrite32\<close> is also appended to \<open>writes\<close>, the trace of MMIO stores in program
  order, so that the DMA submissions a function issues can be read off its result.
  Offsets are word offsets from the start of BAR0.
\<close>

record Bar0 =
  regs :: "u32 \<Rightarrow> u32"
  writable :: "u32 \<Rightarrow> bool"
  writes :: "(u32 \<times> u32) list"

definition iowrite32 :: "u32 \<Rightarrow> u32 \<Rightarrow> Bar0 \<Rightarrow> Bar0" where
  "iowrite32 v off b =
     b\<lparr>regs := (if writable b off then (regs b)(off := v) else regs b),
       writes := writes b @ [(off, v)]\<rparr>"

definition ioread32 :: "u32 \<Rightarrow> Bar0 \<Rightarrow> u32" where
  "ioread32 off b = regs b off"

text \<open>\<open>#define DMABASE(x) ((x)+0*2+1)\<close> and \<open>#define DMACTRL(x) ((x)+1*2+1)\<close>.\<close>

definition DMABASE :: u32 where
  "DMABASE = 0 * 2 + 1"

definition DMACTRL :: u32 where
  "DMACTRL = 1 * 2 + 1"

section \<open>Per-device state\<close>

text \<open>
  \<open>struct AlteraDevice\<close>, with the fields the ring, the read path and the control path
  use. \<open>bufferArrayVirt\<close> is the DMA region seen from the kernel: the byte at each
  offset from the start of the array of \<open>struct Buffer\<close> (slot \<open>i\<close> occupies the offsets
  \<open>i * BUF_SIZE ..< (i + 1) * BUF_SIZE\<close>).
\<close>

definition NUM_BUFS :: u32 where
  "NUM_BUFS = 32"

record AlteraDevice =
  bar :: Bar0
  bufferArrayVirt :: "nat \<Rightarrow> u8"
  bufferArrayBus :: dma_addr_t
  numAvailable :: u32
  numSubmitted :: u32
  outIndex :: u32

definition sizeof_Buffer :: "ioctl_defs \<Rightarrow> size_t" where
  "sizeof_Buffer D = of_nat (BUF_SIZE D)"

text \<open>The argument \<open>BUF_SIZE/128\<close> of every submission, converted to \<open>u32\<close>.\<close>

definition numTLPs :: "ioctl_defs \<Rightarrow> u32" where
  "numTLPs D = of_nat (BUF_SIZE D div 128)"

text \<open>\<open>ape->bufferArrayBus + index * sizeof(struct Buffer)\<close>, computed in 64 bits.\<close>

definition slotBusAddr :: "ioctl_defs \<Rightarrow> AlteraDevice \<Rightarrow> u32 \<Rightarrow> dma_addr_t" where
  "slotBusAddr D ape index = bufferArrayBus ape + ucast index * sizeof_Buffer D"

section \<open>Descriptor submitter\<close>

definition submitDmaReq :: "AlteraDevice \<Rightarrow> dma_addr_t \<Rightarrow> u32 \<Rightarrow> AlteraDevice" where
  "submitDmaReq ape addr n =
     ape\<lparr>bar := iowrite32 n DMACTRL (iowrite32 (ucast addr) DMABASE (bar ape))\<rparr>"

section \<open>Interrupt service routine\<close>

text \<open>
  The \<open>while ( submitCount-- )\<close> loop of \<open>serviceInterrupt\<close>. The counter is a
  \<open>u32\<close>, so the loop ends after \<open>unat submitCount\<close> rounds whatever its start value.
\<close>

function refillLoop :: "ioctl_defs \<Rightarrow> AlteraDevice \<Rightarrow> u32 \<Rightarrow> u32 \<Rightarrow> AlteraDevice" where
  "refillLoop D ape submitCount submitIndex =
     (if submitCount = 0 then ape
      else
        let ape1 = submitDmaReq ape (slotBusAddr D ape submitIndex) (numTLPs D);
            submitIndex1 = submitIndex + 1;
            submitIndex2 = submitIndex1 AND (NUM_BUFS - 1);
            ape2 = ape1\<lparr>numSubmitted := numSubmitted ape1 + 1\<rparr>
        in refillLoop D ape2 (submitCount - 1) submitIndex2)"
  by pat_completeness auto
termination
  by (relation "measure (\<lambda>(D, ape, submitCount, submitIndex). unat submitCount)")
     (auto simp: unat_minus_one unat_gt_0)

text \<open>
  \<open>devID\<close> is the cookie registered with the interrupt: \<open>None\<close> is the null pointer.
  The spin lock and \<open>wake_up_interruptible\<close> change nothing the model records.
\<close>

definition serviceInterrupt ::
  "ioctl_defs \<Rightarrow> AlteraDevice option \<Rightarrow> irqreturn_t \<times> AlteraDevice option" where
  "serviceInterrupt D devID =
     (case devID of
        None \<Rightarrow> (IRQ_NONE, None)
      | Some ape \<Rightarrow>
          let ape1 = ape\<lparr>numAvailable := numAvailable ape + 1\<rparr>;
              ape2 = ape1\<lparr>numSubmitted := numSubmitted ape1 - 1\<rparr>;
              submitCount = NUM_BUFS - numAvailable ape2 - numSubmitted ape2;
              submitIndex = outIndex ape2 + numAvailable ape2;
              submitIndex1 = submitIndex AND (NUM_BUFS - 1)
          in (IRQ_HANDLED, Some (refillLoop D ape2 submitCount submitIndex1)))"

section \<open>Read path\<close>

text \<open>
  The caller's address space as \<open>read\<close> sees it: a byte at each mapped address,
  \<open>None\<close> where a store faults. \<open>copy_to_user\<close> stores the bytes in ascending order
  and returns the number of bytes it could not copy, with the memory it reached.
\<close>

type_synonym user_bytes = "uaddr \<Rightarrow> u8 option"

fun copy_to_user :: "user_bytes \<Rightarrow> uaddr \<Rightarrow> u8 list \<Rightarrow> nat \<times> user_bytes" where
  "copy_to_user um to [] = (0, um)"
| "copy_to_user um to (b # bs) =
     (case um to of
        None \<Rightarrow> (length (b # bs), um)
      | Some old \<Rightarrow> copy_to_user (um(to \<mapsto> b)) (to + 1) bs)"

text \<open>
  \<open>wait_event_interruptible(wq, condition)\<close> in a sequential model. The state handed to
  \<open>cdevRead\<close> is the ring as it stands when the wait ends. The wait returns 0 when the
  condition holds, \<open>-ERESTARTSYS\<close> when it does not and a signal is pending, and does
  not return (\<open>None\<close>) otherwise: the reader stays blocked.
\<close>

definition wait_event_interruptible :: "bool \<Rightarrow> bool \<Rightarrow> int option" where
  "wait_event_interruptible condition signal_pending =
     (if condition then Some 0
      else if signal_pending then Some (- ERESTARTSYS)
      else None)"

text \<open>\<open>ape->bufferArrayVirt[index].data\<close>: the \<open>BUF_SIZE\<close> bytes of one slot.\<close>

definition slotData :: "ioctl_defs \<Rightarrow> AlteraDevice \<Rightarrow> u32 \<Rightarrow> u8 list" where
  "slotData D ape index =
     map (\<lambda>k. bufferArrayVirt ape (unat index * BUF_SIZE D + k)) [0..<BUF_SIZE D]"

text \<open>
  \<open>cdevRead\<close> returns the value of the call, the device state and the caller's memory.
  The results of the wait and of \<open>copy_to_user\<close> are bound and not looked at, as in the
  source (\<open>rc\<close> is only mentioned in the unreachable \<open>(void)rc\<close>).
\<close>

definition cdevRead ::
  "ioctl_defs \<Rightarrow> AlteraDevice \<Rightarrow> user_bytes \<Rightarrow> bool \<Rightarrow> uaddr \<Rightarrow> size_t \<Rightarrow>
     (int \<times> AlteraDevice \<times> user_bytes) option" where
  "cdevRead D ape um signal_pending buf count =
     (if unat count < BUF_SIZE D then Some (- EINVAL, ape, um)
      else
        case wait_event_interruptible (0 < numAvailable ape) signal_pending of
          None \<Rightarrow> None
        | Some woken \<Rightarrow>
            let (rc, um1) = copy_to_user um buf (slotData D ape (outIndex ape));
                ape1 = submitDmaReq ape (slotBusAddr D ape (outIndex ape)) (numTLPs D);
                ape2 = ape1\<lparr>numSubmitted := numSubmitted ape1 + 1\<rparr>;
                ape3 = ape2\<lparr>outIndex := outIndex ape2 + 1\<rparr>;
                ape4 = ape3\<lparr>outIndex := outIndex ape3 AND (NUM_BUFS - 1)\<rparr>;
                ape5 = ape4\<lparr>numAvailable := numAvailable ape4 - 1\<rparr>
            in Some (int (BUF_SIZE D), ape5, um1))"

section \<open>Control path\<close>

text \<open>
  The fields of an ioctl command number, as \<open>asm-generic/ioctl.h\<close> lays them out:
  number in bits 0-7, type in bits 8-15, size in bits 16-29, direction in bits 30-31.
\<close>

definition IOC_NR :: "u32 \<Rightarrow> u32" where
  "IOC_NR cmd = cmd AND 0xFF"

definition IOC_TYPE :: "u32 \<Rightarrow> u32" where
  "IOC_TYPE cmd = drop_bit 8 cmd AND 0xFF"

definition IOC_SIZE :: "u32 \<Rightarrow> u32" where
  "IOC_SIZE cmd = drop_bit 16 cmd AND 0x3FFF"

definition IOC_DIR :: "u32 \<Rightarrow> u32" where
  "IOC_DIR cmd = drop_bit 30 cmd AND 3"

definition IOC_WRITE :: u32 where "IOC_WRITE = 1"
definition IOC_READ :: u32 where "IOC_READ = 2"

datatype verify = VERIFY_READ | VERIFY_WRITE

text \<open>
  The caller's address space as the control path sees it. \<open>access_ok\<close> is the kernel's
  range check. \<open>cmdListAt a\<close> is the \<open>struct CmdList\<close> that \<open>copy_from_user\<close> reads at
  \<open>a\<close>, \<open>None\<close> where the copy faults. \<open>cmdAt a\<close> is the \<open>struct Cmd\<close> it reads at \<open>a\<close>,
  paired with whether a store to that command's \<open>val\<close> field succeeds.
\<close>

record UserMem =
  access_ok :: "verify \<Rightarrow> uaddr \<Rightarrow> u32 \<Rightarrow> bool"
  cmdListAt :: "uaddr \<Rightarrow> CmdList option"
  cmdAt :: "uaddr \<Rightarrow> (Cmd \<times> bool) option"

definition copy_from_user_Cmd :: "UserMem \<Rightarrow> uaddr \<Rightarrow> Cmd option" where
  "copy_from_user_Cmd um ucp = map_option fst (cmdAt um ucp)"

text \<open>\<open>put_user(v, &ucp->val)\<close>: \<open>None\<close> is the fault.\<close>

definition put_user_val :: "UserMem \<Rightarrow> u32 \<Rightarrow> uaddr \<Rightarrow> UserMem option" where
  "put_user_val um v ucp =
     (case cmdAt um ucp of
        Some (c, True) \<Rightarrow> Some (um\<lparr>cmdAt := (cmdAt um)(ucp \<mapsto> (c\<lparr>val := v\<rparr>, True))\<rparr>)
      | Some (c, False) \<Rightarrow> None
      | None \<Rightarrow> None)"

text \<open>
  One round of the \<open>while ( numCmds )\<close> loop of \<open>cdevIOCtl\<close>, up to and excluding
  \<open>ucp++; numCmds--\<close>: \<open>Inl\<close> is the value of an early \<open>return\<close>, \<open>Inr\<close> the state the
  loop goes on with.
\<close>

definition execCmd ::
  "ioctl_defs \<Rightarrow> AlteraDevice \<Rightarrow> UserMem \<Rightarrow> uaddr \<Rightarrow> int + (AlteraDevice \<times> UserMem)" where
  "execCmd D ape um ucp =
     (case copy_from_user_Cmd um ucp of
        None \<Rightarrow> Inl (- EFAULT)
      | Some kc \<Rightarrow>
          let r = 1 + reg kc * 2 in
          if op kc = OP_RD D then
            (case put_user_val um (ioread32 r (bar ape)) ucp of
               None \<Rightarrow> Inl (- EFAULT)
             | Some um1 \<Rightarrow> Inr (ape, um1))
          else if op kc = OP_WR D then
            Inr (ape\<lparr>bar := iowrite32 (val kc) r (bar ape)\<rparr>, um)
          else if op kc = OP_SD D then
            (let ape1 = ape\<lparr>outIndex := 0\<rparr>;
                 ape2 = ape1\<lparr>numAvailable := outIndex ape1\<rparr>;
                 ape3 = ape2\<lparr>numSubmitted := 1\<rparr>
             in Inr (submitDmaReq ape3 (bufferArrayBus ape3) (numTLPs D), um))
          else Inl (- EFAULT))"

function cmdLoop ::
  "ioctl_defs \<Rightarrow> AlteraDevice \<Rightarrow> UserMem \<Rightarrow> uaddr \<Rightarrow> u32 \<Rightarrow> int \<times> AlteraDevice \<times> UserMem" where
  "cmdLoop D ape um ucp n =
     (if n = 0 then (0, ape, um)
      else
        case execCmd D ape um ucp of
          Inl err \<Rightarrow> (err, ape, um)
        | Inr (ape1, um1) \<Rightarrow> cmdLoop D ape1 um1 (ucp + sizeof_Cmd) (n - 1))"
  by pat_completeness auto
termination
  by (relation "measure (\<lambda>(D, ape, um, ucp, n). unat n)")
     (auto simp: unat_minus_one unat_gt_0)

definition cdevIOCtl ::
  "ioctl_defs \<Rightarrow> AlteraDevice \<Rightarrow> UserMem \<Rightarrow> u32 \<Rightarrow> uaddr \<Rightarrow> int \<times> AlteraDevice \<times> UserMem" where
  "cdevIOCtl D ape um cmd arg =
     (if IOC_TYPE cmd \<noteq> FPGALINK_IOC_MAGIC D then (- ENOTTY, ape, um)
      else if IOC_NR cmd > FPGALINK_IOC_MAXNR D then (- ENOTTY, ape, um)
      else
        let err =
              (if IOC_DIR cmd AND IOC_READ \<noteq> 0
               then \<not> access_ok um VERIFY_WRITE arg (IOC_SIZE cmd)
               else if IOC_DIR cmd AND IOC_WRITE \<noteq> 0
               then \<not> access_ok um VERIFY_READ arg (IOC_SIZE cmd)
               else False)
        in
          if err then (- EFAULT, ape, um)
          else if cmd = FPGALINK_CMDLIST D then
            (case cmdListAt um arg of
               None \<Rightarrow> (- EFAULT, ape, um)
             | Some kl \<Rightarrow> cmdLoop D ape um (cmds kl) (numCmds kl))
          else (0, ape, um))"

declare refillLoop.simps [simp del]
declare cmdLoop.simps [simp del]

section \<open>A concrete configuration\<close>

text \<open>
  Values for the parameters of the absent header (a frame of 4096 bytes, three distinct
  op-codes, an ioctl number of type \<open>0x66\<close>), a device whose registers all store what
  is written, and the ring just after the START command: one slot submitted, none
  available. The theorems below are instantiated at these values.
\<close>

definition defs0 :: ioctl_defs where
  "defs0 = \<lparr>BUF_SIZE = 4096, OP_RD = 0, OP_WR = 1, OP_SD = 2,
            FPGALINK_IOC_MAGIC = 0x66, FPGALINK_IOC_MAXNR = 0,
            FPGALINK_CMDLIST = 0xC0106600\<rparr>"

definition bar0 :: Bar0 where
  "bar0 = \<lparr>regs = (\<lambda>off. 0), writable = (\<lambda>off. True), writes = []\<rparr>"

definition apeStarted :: AlteraDevice where
  "apeStarted = \<lparr>bar = bar0, bufferArrayVirt = (\<lambda>k. 0), bufferArrayBus = 0x10000000,
                 numAvailable = 0, numSubmitted = 1, outIndex = 0\<rparr>"

text \<open>The ring as \<open>cdevOpen\<close> leaves it: nothing submitted, nothing available.\<close>

definition apeIdle :: AlteraDevice where
  "apeIdle = \<lparr>bar = bar0, bufferArrayVirt = (\<lambda>k. 0), bufferArrayBus = 0x10000000,
              numAvailable = 0, numSubmitted = 0, outIndex = 0\<rparr>"

text \<open>The ring after the first completion: one frame available in slot 0, 31 slots submitted.\<close>

definition apeReady :: AlteraDevice where
  "apeReady = \<lparr>bar = bar0, bufferArrayVirt = (\<lambda>k. 0), bufferArrayBus = 0x10000000,
               numAvailable = 1, numSubmitted = 31, outIndex = 0\<rparr>"

text \<open>
  A caller's memory holding one batch: the \<open>struct CmdList\<close> at \<open>0x5000\<close>, its commands
  from \<open>0x6000\<close>, every range accepted by \<open>access_ok\<close>. \<open>umStart\<close> is the batch
  \<open>[START]\<close>, \<open>umUnknown\<close> the batch \<open>[{op = 99, reg = 0, val = 0}]\<close>.
\<close>

definition klAt :: "u32 \<Rightarrow> CmdList" where
  "klAt n = \<lparr>numCmds = n, cmds = 0x6000\<rparr>"

definition userBatch :: "u32 \<Rightarrow> (uaddr \<Rightarrow> (Cmd \<times> bool) option) \<Rightarrow> UserMem" where
  "userBatch n slots =
     \<lparr>access_ok = (\<lambda>t a len. True), cmdListAt = [0x5000 \<mapsto> klAt n], cmdAt = slots\<rparr>"

definition umStart :: UserMem where
  "umStart = userBatch 1 [0x6000 \<mapsto> (\<lparr>op = 2, reg = 0, val = 0\<rparr>, True)]"

definition umUnknown :: UserMem where
  "umUnknown = userBatch 1 [0x6000 \<mapsto> (\<lparr>op = 99, reg = 0, val = 0\<rparr>, True)]"

text \<open>The batch \<open>[WRITE(5, 0x1234), START, {op = 99, reg = 0, val = 0}]\<close>.\<close>

definition umPartial :: UserMem where
  "umPartial = userBatch 3
     [0x6000 \<mapsto> (\<lparr>op = 1, reg = 5, val = 0x1234\<rparr>, True),
      0x600C \<mapsto> (\<lparr>op = 2, reg = 0, val = 0\<rparr>, True),
      0x6018 \<mapsto> (\<lparr>op = 99, reg = 0, val = 0\<rparr>, True)]"

text \<open>The batch \<open>[WRITE(5, 0x1234), READ(5)]\<close>.\<close>

definition umReadback :: UserMem where
  "umReadback = userBatch 2
     [0x6000 \<mapsto> (\<lparr>op = 1, reg = 5, val = 0x1234\<rparr>, True),
      0x600C \<mapsto> (\<lparr>op = 0, reg = 5, val = 0\<rparr>, True)]"

section \<open>Vocabulary of the statements\<close>

text \<open>
  The two MMIO stores that submit one slot: its bus address (the low 32 bits) to the
  DMA base register, then the TLP count to the DMA control register.
\<close>

definition submission :: "ioctl_defs \<Rightarrow> dma_addr_t \<Rightarrow> nat \<Rightarrow> (u32 \<times> u32) list" where
  "submission D bus slot =
     [(DMABASE, ucast (bus + of_nat slot * sizeof_Buffer D)), (DMACTRL, numTLPs D)]"

text \<open>\<open>n\<close> consecutive slots of the ring, from slot \<open>start\<close>, wrapping at 32.\<close>

definition ringSlots :: "nat \<Rightarrow> nat \<Rightarrow> nat list" where
  "ringSlots start n = map (\<lambda>k. (start + k) mod 32) [0..<n]"

text \<open>The address of the \<open>i\<close>-th command of a batch that starts at \<open>base\<close>.\<close>

definition cmdSlot :: "uaddr \<Rightarrow> nat \<Rightarrow> uaddr" where
  "cmdSlot base i = base + of_nat i * sizeof_Cmd"

text \<open>An op-code that is none of READ, WRITE and START.\<close>

definition unknownOp :: "ioctl_defs \<Rightarrow> Cmd \<Rightarrow> bool" where
  "unknownOp D kc = (op kc \<noteq> OP_RD D \<and> op kc \<noteq> OP_WR D \<and> op kc \<noteq> OP_SD D)"

text \<open>
  The conditions under which \<open>cdevIOCtl\<close> reaches its command loop: the command
  number is \<open>FPGALINK_CMDLIST\<close>, it passes the type, number and \<open>access_ok\<close> checks,
  and the \<open>struct CmdList\<close> at \<open>arg\<close> can be read.
\<close>

definition cmdlistCall :: "ioctl_defs \<Rightarrow> UserMem \<Rightarrow> u32 \<Rightarrow> uaddr \<Rightarrow> CmdList \<Rightarrow> bool" where
  "cmdlistCall D um cmd arg kl =
     (cmd = FPGALINK_CMDLIST D \<and>
      IOC_TYPE cmd = FPGALINK_IOC_MAGIC D \<and>
      IOC_NR cmd \<le> FPGALINK_IOC_MAXNR D \<and>
      (if IOC_DIR cmd AND IOC_READ \<noteq> 0 then access_ok um VERIFY_WRITE arg (IOC_SIZE cmd)
       else if IOC_DIR cmd AND IOC_WRITE \<noteq> 0 then access_ok um VERIFY_READ arg (IOC_SIZE cmd)
       else True) \<and>
      cmdListAt um arg = Some kl)"

text \<open>
  The command at \<open>ucp\<close> makes the loop return early: it cannot be read, or it is a READ
  whose \<open>val\<close> field cannot be written, or its op-code is unknown.
\<close>

definition cmdFails :: "ioctl_defs \<Rightarrow> UserMem \<Rightarrow> uaddr \<Rightarrow> bool" where
  "cmdFails D um ucp =
     (case cmdAt um ucp of
        None \<Rightarrow> True
      | Some (kc, w) \<Rightarrow> (op kc = OP_RD D \<and> \<not> w) \<or> unknownOp D kc)"

section \<open>The ring index\<close>

lemma ring_next: "unat ((i + 1) AND (NUM_BUFS - 1)) = (unat i + 1) mod 32"
proof -
  have "(i + 1) AND (NUM_BUFS - 1) = take_bit 5 (i + 1)"
    by (simp add: NUM_BUFS_def take_bit_eq_mask mask_eq_exp_minus_1)
  then show ?thesis
    by (simp add: unsigned_take_bit_eq unat_word_ariths take_bit_eq_mod mod_mod_cancel)
qed

lemma ring_mask: "unat (i AND (NUM_BUFS - 1)) = unat i mod 32"
proof -
  have "i AND (NUM_BUFS - 1) = take_bit 5 i"
    by (simp add: NUM_BUFS_def take_bit_eq_mask mask_eq_exp_minus_1)
  then show ?thesis
    by (simp add: unsigned_take_bit_eq take_bit_eq_mod unat_mod)
qed

lemma ringSlots_0: "ringSlots s 0 = []"
  by (simp add: ringSlots_def)

lemma ringSlots_Suc: "ringSlots s (Suc n) = (s mod 32) # ringSlots ((s + 1) mod 32) n"
proof -
  have "[0..<Suc n] = 0 # [Suc 0..<Suc n]"
    by (rule upt_conv_Cons) simp
  also have "[Suc 0..<Suc n] = map Suc [0..<n]"
    by (rule map_Suc_upt [symmetric])
  finally have "[0..<Suc n] = 0 # map Suc [0..<n]" .
  then have "ringSlots s (Suc n) = (s mod 32) # map (\<lambda>k. (s + Suc k) mod 32) [0..<n]"
    by (simp add: ringSlots_def comp_def del: upt_Suc)
  moreover have "\<And>k. (s + Suc k) mod 32 = ((s + 1) mod 32 + k) mod 32"
    by (simp add: mod_add_left_eq)
  ultimately show ?thesis
    by (simp add: ringSlots_def)
qed

section \<open>The submitter and the refill loop\<close>

lemma submitDmaReq_fields:
  "numAvailable (submitDmaReq ape a n) = numAvailable ape"
  "numSubmitted (submitDmaReq ape a n) = numSubmitted ape"
  "outIndex (submitDmaReq ape a n) = outIndex ape"
  "bufferArrayBus (submitDmaReq ape a n) = bufferArrayBus ape"
  "bufferArrayVirt (submitDmaReq ape a n) = bufferArrayVirt ape"
  "writable (bar (submitDmaReq ape a n)) = writable (bar ape)"
  "writes (bar (submitDmaReq ape a n)) = writes (bar ape) @ [(DMABASE, ucast a), (DMACTRL, n)]"
  by (simp_all add: submitDmaReq_def iowrite32_def)

lemma refillLoop_step:
  "c \<noteq> 0 \<Longrightarrow>
   refillLoop D ape c i =
     refillLoop D ((submitDmaReq ape (slotBusAddr D ape i) (numTLPs D))
                     \<lparr>numSubmitted := numSubmitted ape + 1\<rparr>)
       (c - 1) ((i + 1) AND (NUM_BUFS - 1))"
  by (subst refillLoop.simps) (simp add: Let_def submitDmaReq_fields)

text \<open>
  What \<open>c\<close> rounds of the loop do, started at a ring index: the counter of submitted
  slots grows by \<open>c\<close>, the trace grows by the submissions of \<open>c\<close> consecutive slots, and
  nothing else of the ring moves.
\<close>

lemma refillLoop_props:
  "unat c = n \<Longrightarrow> unat i < 32 \<Longrightarrow>
   numSubmitted (refillLoop D ape c i) = numSubmitted ape + c \<and>
   numAvailable (refillLoop D ape c i) = numAvailable ape \<and>
   outIndex (refillLoop D ape c i) = outIndex ape \<and>
   bufferArrayBus (refillLoop D ape c i) = bufferArrayBus ape \<and>
   bufferArrayVirt (refillLoop D ape c i) = bufferArrayVirt ape \<and>
   writable (bar (refillLoop D ape c i)) = writable (bar ape) \<and>
   writes (bar (refillLoop D ape c i)) =
     writes (bar ape) @ concat (map (submission D (bufferArrayBus ape)) (ringSlots (unat i) n))"
proof (induction n arbitrary: ape c i)
  case 0
  then have "c = 0" by (simp add: unat_eq_0)
  then show ?case by (simp add: refillLoop.simps ringSlots_0)
next
  case (Suc n)
  then have c: "c \<noteq> 0" by auto
  with Suc.prems have n: "unat (c - 1) = n" by (simp add: unat_minus_one)
  define ape2 where "ape2 = (submitDmaReq ape (slotBusAddr D ape i) (numTLPs D))
                     \<lparr>numSubmitted := numSubmitted ape + 1\<rparr>"
  define i2 where "i2 = (i + 1) AND (NUM_BUFS - 1)"
  have i2: "unat i2 = (unat i + 1) mod 32" by (simp add: i2_def ring_next)
  then have i2b: "unat i2 < 32" by simp
  have step: "refillLoop D ape c i = refillLoop D ape2 (c - 1) i2"
    using c by (simp add: refillLoop_step ape2_def i2_def)
  have slot: "slotBusAddr D ape i = bufferArrayBus ape + of_nat (unat i) * sizeof_Buffer D"
    by (simp add: slotBusAddr_def)
  have i_mod: "unat i mod 32 = unat i" using Suc.prems by simp
  note IH = Suc.IH [OF n i2b, of ape2]
  show ?case
    unfolding step using IH
    by (simp add: ape2_def submitDmaReq_fields ringSlots_Suc i2 i_mod submission_def slot)
qed

section \<open>The interrupt handler\<close>

lemma isr_unfold:
  "serviceInterrupt D (Some ape) =
     (IRQ_HANDLED, Some (refillLoop D (ape\<lparr>numAvailable := numAvailable ape + 1, numSubmitted := numSubmitted ape - 1\<rparr>)
        (NUM_BUFS - (numAvailable ape + 1) - (numSubmitted ape - 1))
        ((outIndex ape + (numAvailable ape + 1)) AND (NUM_BUFS - 1))))"
  by (simp add: serviceInterrupt_def Let_def)

lemma free_unat:
  assumes "unat a + unat s \<le> 32"
  shows "unat (NUM_BUFS - a - s) = 32 - unat a - unat s"
proof -
  have "unat (NUM_BUFS - a - s) = unat (NUM_BUFS - (a + s))" by (simp add: diff_diff_eq)
  moreover have as: "unat (a + s) = unat a + unat s"
    using assms by (simp add: unat_add_lem [THEN iffD1])
  moreover have "unat (NUM_BUFS - (a + s)) = unat NUM_BUFS - unat (a + s)"
    using assms as by (simp add: unat_sub word_le_nat_alt NUM_BUFS_def)
  ultimately show ?thesis by (simp add: NUM_BUFS_def)
qed

text \<open>
  Claim C1. For every ring state with \<open>numSubmitted \<ge> 1\<close> and
  \<open>numAvailable + numSubmitted \<le> NUM_BUFS\<close> on entry, one run of the interrupt handler
  with a non-null device pointer returns "handled" and leaves
  \<open>numSubmitted + numAvailable = NUM_BUFS\<close>: \<open>numAvailable\<close> has grown by one, one
  submitted slot was credited, and every Free slot (there are
  \<open>NUM_BUFS - numAvailable - numSubmitted\<close> of them) was submitted, in ring order from
  slot \<open>(outIndex + numAvailable + 1) mod NUM_BUFS\<close>, each counted in \<open>numSubmitted\<close>.
\<close>

theorem serviceInterrupt_saturates:
  assumes "1 \<le> unat (numSubmitted ape)"
    and "unat (numAvailable ape) + unat (numSubmitted ape) \<le> unat NUM_BUFS"
  shows "\<exists>ape'. serviceInterrupt D (Some ape) = (IRQ_HANDLED, Some ape') \<and>
           unat (numSubmitted ape') + unat (numAvailable ape') = unat NUM_BUFS \<and>
           unat (numAvailable ape') = unat (numAvailable ape) + 1 \<and>
           unat (numSubmitted ape') =
             unat (numSubmitted ape) - 1 +
               (unat NUM_BUFS - unat (numAvailable ape) - unat (numSubmitted ape)) \<and>
           outIndex ape' = outIndex ape \<and>
           writes (bar ape') =
             writes (bar ape) @
               concat (map (submission D (bufferArrayBus ape))
                 (ringSlots (unat (outIndex ape) + unat (numAvailable ape) + 1)
                    (unat NUM_BUFS - unat (numAvailable ape) - unat (numSubmitted ape))))"
proof -
  let ?a = "numAvailable ape" and ?s = "numSubmitted ape"
  define ape2 where "ape2 = ape\<lparr>numAvailable := ?a + 1, numSubmitted := ?s - 1\<rparr>"
  define c where "c = NUM_BUFS - ?a - ?s"
  define i where "i = (outIndex ape + (?a + 1)) AND (NUM_BUFS - 1)"
  define ape' where "ape' = refillLoop D ape2 c i"
  have le: "unat ?a + unat ?s \<le> 32" using assms(2) by (simp add: NUM_BUFS_def)
  have c: "unat c = 32 - unat ?a - unat ?s"
    unfolding c_def using le by (rule free_unat)
  have a1: "unat (?a + 1) = unat ?a + 1"
    using assms(1) le by (simp add: unat_word_ariths)
  have s1: "unat (?s - 1) = unat ?s - 1"
    using assms(1) by (simp add: unat_minus_one unat_eq_0 [symmetric])
  have "unat (outIndex ape + (?a + 1)) = (unat (outIndex ape) + unat (?a + 1)) mod 2 ^ 32"
    by (simp add: unat_word_ariths(1))
  then have "unat (outIndex ape + (?a + 1)) mod 32 = (unat (outIndex ape) + (unat ?a + 1)) mod 32"
    unfolding a1 by (simp add: mod_mod_cancel)
  then have i: "unat i = (unat (outIndex ape) + unat ?a + 1) mod 32"
    unfolding i_def ring_mask by (simp add: add.assoc)
  then have ib: "unat i < 32" by simp
  note P = refillLoop_props [OF c ib, of D ape2, folded ape'_def]
  have cnt: "NUM_BUFS - (?a + 1) - (?s - 1) = c"
    unfolding c_def by simp
  have run: "serviceInterrupt D (Some ape) = (IRQ_HANDLED, Some ape')"
    unfolding isr_unfold cnt ape'_def ape2_def i_def by (rule refl)
  have ns: "numSubmitted ape' = (?s - 1) + c" using P by (simp add: ape2_def)
  have "unat ((?s - 1) + c) = unat (?s - 1) + unat c"
    using s1 c le assms(1) by (simp add: unat_add_lem [THEN iffD1])
  with ns s1 c have ns': "unat (numSubmitted ape') = unat ?s - 1 + (32 - unat ?a - unat ?s)"
    by simp
  have na: "numAvailable ape' = ?a + 1" using P by (simp add: ape2_def)
  have oi: "outIndex ape' = outIndex ape" using P by (simp add: ape2_def)
  have slots: "ringSlots (unat i) (32 - unat ?a - unat ?s) =
      ringSlots (unat (outIndex ape) + unat ?a + 1) (32 - unat ?a - unat ?s)"
    by (simp add: ringSlots_def i mod_add_left_eq)
  have wr: "writes (bar ape') = writes (bar ape) @
      concat (map (submission D (bufferArrayBus ape))
        (ringSlots (unat (outIndex ape) + unat ?a + 1) (32 - unat ?a - unat ?s)))"
    using P slots by (simp add: ape2_def)
  show ?thesis
    using run ns' na a1 oi wr le assms(1) by (simp add: NUM_BUFS_def)
qed

theorem serviceInterrupt_saturates_witness:
  "1 \<le> unat (numSubmitted apeStarted) \<and>
   unat (numAvailable apeStarted) + unat (numSubmitted apeStarted) \<le> unat NUM_BUFS \<and>
   (\<exists>ape'. serviceInterrupt defs0 (Some apeStarted) = (IRQ_HANDLED, Some ape') \<and>
      unat (numSubmitted ape') = 31 \<and> unat (numAvailable ape') = 1 \<and>
      length (writes (bar ape')) = 62)"
proof -
  have h1: "1 \<le> unat (numSubmitted apeStarted)"
    by (simp add: apeStarted_def)
  have h2: "unat (numAvailable apeStarted) + unat (numSubmitted apeStarted) \<le> unat NUM_BUFS"
    by (simp add: apeStarted_def NUM_BUFS_def)
  from serviceInterrupt_saturates [OF h1 h2, of defs0]
  obtain ape' where r: "serviceInterrupt defs0 (Some apeStarted) = (IRQ_HANDLED, Some ape')"
    and s: "unat (numSubmitted ape') =
              unat (numSubmitted apeStarted) - 1 +
                (unat NUM_BUFS - unat (numAvailable apeStarted) - unat (numSubmitted apeStarted))"
    and a: "unat (numAvailable ape') = unat (numAvailable apeStarted) + 1"
    and w: "writes (bar ape') =
             writes (bar apeStarted) @
               concat (map (submission defs0 (bufferArrayBus apeStarted))
                 (ringSlots (unat (outIndex apeStarted) + unat (numAvailable apeStarted) + 1)
                    (unat NUM_BUFS - unat (numAvailable apeStarted) -
                       unat (numSubmitted apeStarted))))"
    by blast
  have "length (writes (bar ape')) = 62"
    unfolding w
    by (simp add: apeStarted_def bar0_def NUM_BUFS_def ringSlots_def submission_def
          length_concat comp_def sum_list_triv)
  with r s a h1 h2 show ?thesis
    by (simp add: apeStarted_def NUM_BUFS_def)
qed

text \<open>
  The handler in wrapping arithmetic, for any ring state: it has no guard on
  \<open>numSubmitted\<close>, so every run with a device pointer credits one completion and
  refills \<open>NUM_BUFS - numAvailable - numSubmitted\<close> slots, computed modulo \<open>2^32\<close>.
\<close>

lemma isr_wrapping:
  "\<exists>ape'. serviceInterrupt D (Some ape) = (IRQ_HANDLED, Some ape') \<and>
     numAvailable ape' = numAvailable ape + 1 \<and>
     numSubmitted ape' = NUM_BUFS - 1 - numAvailable ape \<and>
     outIndex ape' = outIndex ape \<and>
     writes (bar ape') =
       writes (bar ape) @
         concat (map (submission D (bufferArrayBus ape))
           (ringSlots (unat (outIndex ape) + unat (numAvailable ape) + 1)
              (unat (NUM_BUFS - numAvailable ape - numSubmitted ape))))"
proof -
  let ?a = "numAvailable ape" and ?s = "numSubmitted ape"
  define ape2 where "ape2 = ape\<lparr>numAvailable := ?a + 1, numSubmitted := ?s - 1\<rparr>"
  define c where "c = NUM_BUFS - ?a - ?s"
  define i where "i = (outIndex ape + (?a + 1)) AND (NUM_BUFS - 1)"
  define ape' where "ape' = refillLoop D ape2 c i"
  have "unat (outIndex ape + (?a + 1)) = (unat (outIndex ape) + (unat ?a + 1)) mod 2 ^ 32"
    by (simp add: unat_word_ariths mod_add_right_eq)
  then have "unat (outIndex ape + (?a + 1)) mod 32 = (unat (outIndex ape) + (unat ?a + 1)) mod 32"
    by (simp add: mod_mod_cancel)
  then have i: "unat i = (unat (outIndex ape) + unat ?a + 1) mod 32"
    unfolding i_def ring_mask by (simp add: add.assoc)
  then have ib: "unat i < 32" by simp
  note P = refillLoop_props [where c=c and D=D and ape=ape2 and i=i, OF refl ib, folded ape'_def]
  have cnt: "NUM_BUFS - (?a + 1) - (?s - 1) = c"
    unfolding c_def by simp
  have run: "serviceInterrupt D (Some ape) = (IRQ_HANDLED, Some ape')"
    unfolding isr_unfold cnt ape'_def ape2_def i_def by (rule refl)
  have ns: "numSubmitted ape' = NUM_BUFS - 1 - ?a" using P by (simp add: ape2_def c_def)
  have na: "numAvailable ape' = ?a + 1" using P by (simp add: ape2_def)
  have oi: "outIndex ape' = outIndex ape" using P by (simp add: ape2_def)
  have slots: "ringSlots (unat i) (unat c) =
      ringSlots (unat (outIndex ape) + unat ?a + 1) (unat c)"
    by (simp add: ringSlots_def i mod_add_left_eq)
  have wr: "writes (bar ape') = writes (bar ape) @
      concat (map (submission D (bufferArrayBus ape))
        (ringSlots (unat (outIndex ape) + unat ?a + 1) (unat c)))"
    using P slots by (simp add: ape2_def)
  show ?thesis
    using run ns na oi wr unfolding c_def by blast
qed

text \<open>
  Claim C2, as the spec states it: with \<open>numSubmitted = 0\<close> on entry the handler
  returns "not ours" and changes nothing. The code has no such guard. On the ring
  that \<open>cdevOpen\<close> leaves, the handler returns "handled", \<open>numAvailable\<close> becomes 1 and
  \<open>numSubmitted\<close> becomes 31.
\<close>

theorem serviceInterrupt_not_ours_counterexample:
  "numSubmitted apeIdle = 0 \<and>
   fst (serviceInterrupt defs0 (Some apeIdle)) \<noteq> IRQ_NONE \<and>
   map_option numAvailable (snd (serviceInterrupt defs0 (Some apeIdle))) \<noteq>
     Some (numAvailable apeIdle) \<and>
   map_option numSubmitted (snd (serviceInterrupt defs0 (Some apeIdle))) \<noteq>
     Some (numSubmitted apeIdle)"
proof -
  from isr_wrapping [of defs0 apeIdle] obtain ape' where
    "serviceInterrupt defs0 (Some apeIdle) = (IRQ_HANDLED, Some ape')"
    "numAvailable ape' = numAvailable apeIdle + 1"
    "numSubmitted ape' = NUM_BUFS - 1 - numAvailable apeIdle"
    by blast
  then show ?thesis
    by (simp add: apeIdle_def NUM_BUFS_def)
qed

text \<open>
  Claim C2, amended to what the code does. For every ring state with
  \<open>numSubmitted = 0\<close> on entry and a non-null device pointer, the handler returns
  "handled": \<open>numAvailable\<close> is incremented by one, \<open>outIndex\<close> is unchanged,
  \<open>numSubmitted\<close> wraps below zero and is then advanced by the refill loop to
  \<open>NUM_BUFS - 1 - numAvailable\<close> (of the entry state, modulo \<open>2^32\<close>), and
  \<open>NUM_BUFS - numAvailable\<close> slots are submitted. "Not ours" is returned for a null
  device pointer only.
\<close>

theorem serviceInterrupt_spurious:
  assumes "numSubmitted ape = 0"
  shows "fst (serviceInterrupt D (Some ape)) = IRQ_HANDLED \<and>
         map_option numAvailable (snd (serviceInterrupt D (Some ape))) =
           Some (numAvailable ape + 1) \<and>
         map_option numSubmitted (snd (serviceInterrupt D (Some ape))) =
           Some (NUM_BUFS - 1 - numAvailable ape) \<and>
         map_option outIndex (snd (serviceInterrupt D (Some ape))) = Some (outIndex ape) \<and>
         map_option (\<lambda>ape'. writes (bar ape')) (snd (serviceInterrupt D (Some ape))) =
           Some (writes (bar ape) @
             concat (map (submission D (bufferArrayBus ape))
               (ringSlots (unat (outIndex ape) + unat (numAvailable ape) + 1)
                  (unat (NUM_BUFS - numAvailable ape))))) \<and>
         serviceInterrupt D None = (IRQ_NONE, None)"
proof -
  from isr_wrapping [of D ape] obtain ape' where
    "serviceInterrupt D (Some ape) = (IRQ_HANDLED, Some ape')"
    "numAvailable ape' = numAvailable ape + 1"
    "numSubmitted ape' = NUM_BUFS - 1 - numAvailable ape"
    "outIndex ape' = outIndex ape"
    "writes (bar ape') =
       writes (bar ape) @
         concat (map (submission D (bufferArrayBus ape))
           (ringSlots (unat (outIndex ape) + unat (numAvailable ape) + 1)
              (unat (NUM_BUFS - numAvailable ape - numSubmitted ape))))"
    by blast
  then show ?thesis
    using assms by (simp add: serviceInterrupt_def)
qed

theorem serviceInterrupt_spurious_witness:
  "numSubmitted apeIdle = 0 \<and>
   fst (serviceInterrupt defs0 (Some apeIdle)) = IRQ_HANDLED \<and>
   map_option numAvailable (snd (serviceInterrupt defs0 (Some apeIdle))) = Some 1 \<and>
   map_option numSubmitted (snd (serviceInterrupt defs0 (Some apeIdle))) = Some 31"
proof -
  have h: "numSubmitted apeIdle = 0" by (simp add: apeIdle_def)
  show ?thesis
    using h serviceInterrupt_spurious [OF h, of defs0]
    by (simp add: apeIdle_def NUM_BUFS_def)
qed

section \<open>The read path\<close>

text \<open>
  \<open>copy_to_user\<close> touches only the destination range; when it reports that nothing
  was left uncopied, the range holds the source bytes in order.
\<close>

lemma copy_to_user_frame:
  "(\<forall>k<length bs. a \<noteq> to + of_nat k) \<Longrightarrow> snd (copy_to_user um to bs) a = um a"
proof (induction bs arbitrary: um to)
  case Nil
  then show ?case by simp
next
  case (Cons b bs)
  show ?case
  proof (cases "um to")
    case None
    then show ?thesis by simp
  next
    case (Some old)
    have a0: "a \<noteq> to" using Cons.prems [rule_format, of 0] by simp
    have "\<forall>k<length bs. a \<noteq> (to + 1) + of_nat k"
    proof (intro allI impI)
      fix k assume "k < length bs"
      then have "Suc k < length (b # bs)" by simp
      from Cons.prems [rule_format, OF this]
      show "a \<noteq> (to + 1) + of_nat k" by (simp add: add.assoc)
    qed
    then have "snd (copy_to_user (um(to \<mapsto> b)) (to + 1) bs) a = (um(to \<mapsto> b)) a"
      by (rule Cons.IH)
    moreover have "copy_to_user um to (b # bs) = copy_to_user (um(to \<mapsto> b)) (to + 1) bs"
      using Some by simp
    ultimately show ?thesis using a0 by simp
  qed
qed

lemma word64_of_nat_Suc_neq_0:
  "k < 2 ^ 64 - 1 \<Longrightarrow> (1 + of_nat k :: 64 word) \<noteq> 0"
proof -
  assume k: "k < 2 ^ 64 - 1"
  have "(1 + of_nat k :: 64 word) = of_nat (Suc k)" by simp
  moreover have "unat (of_nat (Suc k) :: 64 word) = Suc k"
    using k by (simp add: unat_of_nat del: of_nat_Suc)
  ultimately show ?thesis
    by (metis nat.simps(3) unat_0)
qed

lemma copy_to_user_stored:
  "fst (copy_to_user um to bs) = 0 \<Longrightarrow> length bs \<le> 2 ^ 64 \<Longrightarrow> k < length bs \<Longrightarrow>
   snd (copy_to_user um to bs) (to + of_nat k) = Some (bs ! k)"
proof (induction bs arbitrary: um to k)
  case Nil
  then show ?case by simp
next
  case (Cons b bs)
  show ?case
  proof (cases "um to")
    case None
    with Cons.prems show ?thesis by simp
  next
    case (Some old)
    with Cons.prems have ok: "fst (copy_to_user (um(to \<mapsto> b)) (to + 1) bs) = 0" by simp
    have len: "length bs \<le> 2 ^ 64" using Cons.prems by simp
    show ?thesis
    proof (cases k)
      case 0
      have "\<forall>j<length bs. to \<noteq> (to + 1) + of_nat j"
      proof (intro allI impI)
        fix j assume "j < length bs"
        with Cons.prems have "j < 2 ^ 64 - 1" by simp
        then have "(1 + of_nat j :: 64 word) \<noteq> 0" by (rule word64_of_nat_Suc_neq_0)
        then show "to \<noteq> (to + 1) + of_nat j" by (simp add: add.assoc)
      qed
      then have "snd (copy_to_user (um(to \<mapsto> b)) (to + 1) bs) to = (um(to \<mapsto> b)) to"
        by (rule copy_to_user_frame)
      moreover have "copy_to_user um to (b # bs) = copy_to_user (um(to \<mapsto> b)) (to + 1) bs"
        using Some by simp
      ultimately show ?thesis using 0 by simp
    next
      case (Suc k')
      with Cons.prems have "k' < length bs" by simp
      from Cons.IH [OF ok len this]
      have "snd (copy_to_user (um(to \<mapsto> b)) (to + 1) bs) ((to + 1) + of_nat k') =
              Some (bs ! k')" .
      moreover have "copy_to_user um to (b # bs) = copy_to_user (um(to \<mapsto> b)) (to + 1) bs"
        using Some by simp
      moreover have "(to + 1) + of_nat k' = to + of_nat (Suc k')" by simp
      ultimately show ?thesis using Suc by simp
    qed
  qed
qed

lemma copy_to_user_fault:
  "um to = None \<Longrightarrow> copy_to_user um to bs = (length bs, um)"
  by (cases bs) simp_all

lemma copy_to_user_mapped:
  "\<forall>a. um a \<noteq> None \<Longrightarrow> fst (copy_to_user um to bs) = 0"
proof (induction bs arbitrary: um to)
  case Nil
  then show ?case by simp
next
  case (Cons b bs)
  from Cons.prems have "um to \<noteq> None" by blast
  then obtain old where "um to = Some old" by auto
  moreover have "\<forall>a. (um(to \<mapsto> b)) a \<noteq> None" using Cons.prems by simp
  ultimately show ?case using Cons.IH by simp
qed

text \<open>
  Claim C6. For every read call with \<open>count < BUF_SIZE\<close>, read fails with the
  "invalid argument" error (\<open>-EINVAL\<close>, that is -22), and the ring state, the device
  and the caller's memory are as they were before the call.
\<close>

theorem cdevRead_short_count:
  assumes "unat count < BUF_SIZE D"
  shows "cdevRead D ape um signal_pending buf count = Some (- EINVAL, ape, um) \<and>
         - EINVAL = - 22"
  using assms by (simp add: cdevRead_def EINVAL_def)

theorem cdevRead_short_count_witness:
  "unat (100 :: size_t) < BUF_SIZE defs0 \<and>
   cdevRead defs0 apeStarted (\<lambda>a. None) False 0x7000 100 =
     Some (- 22, apeStarted, (\<lambda>a. None))"
proof -
  have h: "unat (100 :: size_t) < BUF_SIZE defs0" by (simp add: defs0_def)
  show ?thesis
    using h cdevRead_short_count [OF h, of apeStarted "\<lambda>a. None" False "0x7000"]
    by simp
qed

text \<open>
  Once the size check has passed and the wait has returned (the condition holds or a
  signal is pending), \<open>cdevRead\<close> runs the same statements whatever the wait and the
  copy returned.
\<close>

lemma cdevRead_proceeds:
  assumes "BUF_SIZE D \<le> unat count" and "0 < numAvailable ape \<or> signal_pending"
  shows "cdevRead D ape um signal_pending buf count =
           Some (int (BUF_SIZE D),
                 (submitDmaReq ape (slotBusAddr D ape (outIndex ape)) (numTLPs D))
                   \<lparr>numSubmitted := numSubmitted ape + 1,
                     outIndex := (outIndex ape + 1) AND (NUM_BUFS - 1),
                     numAvailable := numAvailable ape - 1\<rparr>,
                 snd (copy_to_user um buf (slotData D ape (outIndex ape))))"
  using assms
  by (auto simp: cdevRead_def wait_event_interruptible_def Let_def submitDmaReq_fields
        split: prod.splits)

lemma unat_NUM_BUFS: "unat NUM_BUFS = 32"
  by (simp add: NUM_BUFS_def)

lemma slotBusAddr_submission:
  "[(DMABASE, ucast (slotBusAddr D ape i)), (DMACTRL, numTLPs D)] =
     submission D (bufferArrayBus ape) (unat i)"
  by (simp add: submission_def slotBusAddr_def)

text \<open>
  Claim C5. For every successful read call (\<open>count \<ge> BUF_SIZE\<close>, \<open>numAvailable > 0\<close>,
  the copy leaves no byte uncopied), read copies exactly \<open>BUF_SIZE\<close> bytes from slot
  \<open>outIndex\<close> of the pool to the user buffer and leaves the rest of the caller's memory
  alone, submits that same slot to the device, increments \<open>numSubmitted\<close> by one,
  advances \<open>outIndex\<close> by one modulo \<open>NUM_BUFS\<close>, decrements \<open>numAvailable\<close> by one and
  returns \<open>BUF_SIZE\<close>.
\<close>

theorem cdevRead_success:
  assumes "BUF_SIZE D \<le> unat count"
    and "0 < numAvailable ape"
    and "fst (copy_to_user um buf (slotData D ape (outIndex ape))) = 0"
  shows "\<exists>ape' um'.
           cdevRead D ape um signal_pending buf count = Some (int (BUF_SIZE D), ape', um') \<and>
           (\<forall>k<BUF_SIZE D.
              um' (buf + of_nat k) =
                Some (bufferArrayVirt ape (unat (outIndex ape) * BUF_SIZE D + k))) \<and>
           (\<forall>a. (\<forall>k<BUF_SIZE D. a \<noteq> buf + of_nat k) \<longrightarrow> um' a = um a) \<and>
           writes (bar ape') =
             writes (bar ape) @ submission D (bufferArrayBus ape) (unat (outIndex ape)) \<and>
           numSubmitted ape' = numSubmitted ape + 1 \<and>
           unat (outIndex ape') = (unat (outIndex ape) + 1) mod unat NUM_BUFS \<and>
           unat (numAvailable ape') = unat (numAvailable ape) - 1 \<and>
           bufferArrayVirt ape' = bufferArrayVirt ape \<and>
           bufferArrayBus ape' = bufferArrayBus ape"
proof -
  let ?src = "slotData D ape (outIndex ape)"
  define um' where "um' = snd (copy_to_user um buf ?src)"
  define ape' where "ape' = (submitDmaReq ape (slotBusAddr D ape (outIndex ape)) (numTLPs D))
                   \<lparr>numSubmitted := numSubmitted ape + 1,
                     outIndex := (outIndex ape + 1) AND (NUM_BUFS - 1),
                     numAvailable := numAvailable ape - 1\<rparr>"
  have run: "cdevRead D ape um signal_pending buf count = Some (int (BUF_SIZE D), ape', um')"
    unfolding ape'_def um'_def using assms(1,2) by (intro cdevRead_proceeds) simp_all
  have len: "length ?src = BUF_SIZE D" by (simp add: slotData_def)
  have "unat count < 2 ^ 64" using unsigned_less [of count] by simp
  with assms(1) have small: "length ?src \<le> 2 ^ 64" unfolding len by simp
  have stored: "\<forall>k<BUF_SIZE D.
      um' (buf + of_nat k) = Some (bufferArrayVirt ape (unat (outIndex ape) * BUF_SIZE D + k))"
  proof (intro allI impI)
    fix k assume k: "k < BUF_SIZE D"
    then have "k < length ?src" by (simp add: len)
    from copy_to_user_stored [OF assms(3) small this]
    show "um' (buf + of_nat k) = Some (bufferArrayVirt ape (unat (outIndex ape) * BUF_SIZE D + k))"
      using k by (simp add: um'_def slotData_def)
  qed
  have frame: "\<forall>a. (\<forall>k<BUF_SIZE D. a \<noteq> buf + of_nat k) \<longrightarrow> um' a = um a"
    unfolding um'_def using copy_to_user_frame [of ?src _ buf um] by (simp add: len)
  have wr: "writes (bar ape') =
      writes (bar ape) @ submission D (bufferArrayBus ape) (unat (outIndex ape))"
    by (simp add: ape'_def submitDmaReq_fields slotBusAddr_submission)
  have oi: "unat (outIndex ape') = (unat (outIndex ape) + 1) mod unat NUM_BUFS"
    using unat_NUM_BUFS by (simp add: ape'_def ring_next)
  have "numAvailable ape \<noteq> 0" using assms(2) by auto
  then have na: "unat (numAvailable ape') = unat (numAvailable ape) - 1"
    by (simp add: ape'_def unat_minus_one)
  show ?thesis
    using run stored frame wr oi na
    by (intro exI [of _ ape'] exI [of _ um']) (simp add: ape'_def submitDmaReq_fields)
qed

theorem cdevRead_success_witness:
  "BUF_SIZE defs0 \<le> unat (4096 :: size_t) \<and>
   0 < numAvailable apeReady \<and>
   fst (copy_to_user (\<lambda>a. Some 0) 0x7000 (slotData defs0 apeReady (outIndex apeReady))) = 0 \<and>
   (\<exists>ape' um'.
      cdevRead defs0 apeReady (\<lambda>a. Some 0) False 0x7000 4096 = Some (4096, ape', um') \<and>
      numSubmitted ape' = 32 \<and> unat (outIndex ape') = 1 \<and> unat (numAvailable ape') = 0)"
proof -
  have h1: "BUF_SIZE defs0 \<le> unat (4096 :: size_t)" by (simp add: defs0_def)
  have h2: "0 < numAvailable apeReady" by (simp add: apeReady_def)
  have h3: "fst (copy_to_user (\<lambda>a. Some 0) 0x7000
                  (slotData defs0 apeReady (outIndex apeReady))) = 0"
    by (rule copy_to_user_mapped) simp
  from cdevRead_success [OF h1 h2 h3, of False]
  obtain ape' um' where
    "cdevRead defs0 apeReady (\<lambda>a. Some 0) False 0x7000 4096 =
       Some (int (BUF_SIZE defs0), ape', um')"
    "numSubmitted ape' = numSubmitted apeReady + 1"
    "unat (outIndex ape') = (unat (outIndex apeReady) + 1) mod unat NUM_BUFS"
    "unat (numAvailable ape') = unat (numAvailable apeReady) - 1"
    by blast
  then have "cdevRead defs0 apeReady (\<lambda>a. Some 0) False 0x7000 4096 = Some (4096, ape', um') \<and>
      numSubmitted ape' = 32 \<and> unat (outIndex ape') = 1 \<and> unat (numAvailable ape') = 0"
    by (simp add: defs0_def apeReady_def unat_NUM_BUFS)
  with h1 h2 h3 show ?thesis by blast
qed

text \<open>
  Claim C3 says that a read whose wait is ended by a signal returns the "interrupted
  system call" error and leaves the ring alone. The code drops the value of
  \<open>wait_event_interruptible\<close>. What it does instead, for every call with
  \<open>count \<ge> BUF_SIZE\<close> whose wait ends by a signal while \<open>numAvailable = 0\<close>: the wait
  returns \<open>-ERESTARTSYS\<close>, and the call goes on to copy slot \<open>outIndex\<close>, submit it,
  increment \<open>numSubmitted\<close>, advance \<open>outIndex\<close>, wrap \<open>numAvailable\<close> from 0 to
  \<open>2^32 - 1\<close>, and return \<open>BUF_SIZE\<close>.
\<close>

theorem cdevRead_signal_not_reported:
  assumes "BUF_SIZE D \<le> unat count" and "numAvailable ape = 0"
  shows "wait_event_interruptible (0 < numAvailable ape) True = Some (- ERESTARTSYS) \<and>
         (\<exists>ape'.
            cdevRead D ape um True buf count =
              Some (int (BUF_SIZE D), ape',
                    snd (copy_to_user um buf (slotData D ape (outIndex ape)))) \<and>
            int (BUF_SIZE D) \<noteq> - EINTR \<and>
            numAvailable ape' = - 1 \<and>
            numSubmitted ape' = numSubmitted ape + 1 \<and>
            unat (outIndex ape') = (unat (outIndex ape) + 1) mod unat NUM_BUFS \<and>
            writes (bar ape') =
              writes (bar ape) @ submission D (bufferArrayBus ape) (unat (outIndex ape)))"
proof -
  have "cdevRead D ape um True buf count =
           Some (int (BUF_SIZE D),
                 (submitDmaReq ape (slotBusAddr D ape (outIndex ape)) (numTLPs D))
                   \<lparr>numSubmitted := numSubmitted ape + 1,
                     outIndex := (outIndex ape + 1) AND (NUM_BUFS - 1),
                     numAvailable := numAvailable ape - 1\<rparr>,
                 snd (copy_to_user um buf (slotData D ape (outIndex ape))))"
    using assms(1) by (intro cdevRead_proceeds) simp_all
  moreover have "int (BUF_SIZE D) \<noteq> - EINTR" by (simp add: EINTR_def)
  ultimately show ?thesis
    using assms(2) unat_NUM_BUFS
    by (simp add: wait_event_interruptible_def submitDmaReq_fields slotBusAddr_submission
          ring_next)
qed

theorem cdevRead_signal_not_reported_witness:
  "BUF_SIZE defs0 \<le> unat (4096 :: size_t) \<and> numAvailable apeIdle = 0 \<and>
   (\<exists>ape' um'.
      cdevRead defs0 apeIdle (\<lambda>a. Some 0) True 0x7000 4096 = Some (4096, ape', um') \<and>
      numAvailable ape' = 0xFFFFFFFF \<and> numSubmitted ape' = 1 \<and> unat (outIndex ape') = 1 \<and>
      length (writes (bar ape')) = 2)"
proof -
  have h1: "BUF_SIZE defs0 \<le> unat (4096 :: size_t)" by (simp add: defs0_def)
  have h2: "numAvailable apeIdle = 0" by (simp add: apeIdle_def)
  from cdevRead_signal_not_reported [OF h1 h2, of "\<lambda>a. Some 0" "0x7000"]
  obtain ape' where
    "cdevRead defs0 apeIdle (\<lambda>a. Some 0) True 0x7000 4096 =
       Some (int (BUF_SIZE defs0), ape',
             snd (copy_to_user (\<lambda>a. Some 0) 0x7000 (slotData defs0 apeIdle (outIndex apeIdle))))"
    "numAvailable ape' = - 1"
    "numSubmitted ape' = numSubmitted apeIdle + 1"
    "unat (outIndex ape') = (unat (outIndex apeIdle) + 1) mod unat NUM_BUFS"
    "writes (bar ape') =
       writes (bar apeIdle) @ submission defs0 (bufferArrayBus apeIdle) (unat (outIndex apeIdle))"
    by blast
  then have "\<exists>um'. cdevRead defs0 apeIdle (\<lambda>a. Some 0) True 0x7000 4096 = Some (4096, ape', um') \<and>
      numAvailable ape' = 0xFFFFFFFF \<and> numSubmitted ape' = 1 \<and> unat (outIndex ape') = 1 \<and>
      length (writes (bar ape')) = 2"
    by (simp add: defs0_def apeIdle_def bar0_def unat_NUM_BUFS submission_def)
  with h1 h2 show ?thesis by blast
qed

text \<open>
  Claim C4 says that a read whose copy to the user buffer cannot complete returns the
  "bad address" error with the slot not consumed. The code stores the result of
  \<open>copy_to_user\<close> in \<open>rc\<close> and never tests it. What it does instead, for every call
  with \<open>count \<ge> BUF_SIZE\<close> and \<open>numAvailable > 0\<close> whose copy leaves bytes uncopied: it
  submits the slot, increments \<open>numSubmitted\<close>, advances \<open>outIndex\<close>, decrements
  \<open>numAvailable\<close> and returns \<open>BUF_SIZE\<close>.
\<close>

theorem cdevRead_copy_fault_not_reported:
  assumes "BUF_SIZE D \<le> unat count"
    and "0 < numAvailable ape"
    and "fst (copy_to_user um buf (slotData D ape (outIndex ape))) \<noteq> 0"
  shows "\<exists>ape'.
           cdevRead D ape um signal_pending buf count =
             Some (int (BUF_SIZE D), ape',
                   snd (copy_to_user um buf (slotData D ape (outIndex ape)))) \<and>
           int (BUF_SIZE D) \<noteq> - EFAULT \<and>
           numAvailable ape' = numAvailable ape - 1 \<and>
           numSubmitted ape' = numSubmitted ape + 1 \<and>
           unat (outIndex ape') = (unat (outIndex ape) + 1) mod unat NUM_BUFS \<and>
           writes (bar ape') =
             writes (bar ape) @ submission D (bufferArrayBus ape) (unat (outIndex ape))"
proof -
  have "cdevRead D ape um signal_pending buf count =
           Some (int (BUF_SIZE D),
                 (submitDmaReq ape (slotBusAddr D ape (outIndex ape)) (numTLPs D))
                   \<lparr>numSubmitted := numSubmitted ape + 1,
                     outIndex := (outIndex ape + 1) AND (NUM_BUFS - 1),
                     numAvailable := numAvailable ape - 1\<rparr>,
                 snd (copy_to_user um buf (slotData D ape (outIndex ape))))"
    using assms(1,2) by (intro cdevRead_proceeds) simp_all
  moreover have "int (BUF_SIZE D) \<noteq> - EFAULT" by (simp add: EFAULT_def)
  ultimately show ?thesis
    using unat_NUM_BUFS
    by (simp add: submitDmaReq_fields slotBusAddr_submission ring_next)
qed

theorem cdevRead_copy_fault_not_reported_witness:
  "BUF_SIZE defs0 \<le> unat (4096 :: size_t) \<and> 0 < numAvailable apeReady \<and>
   fst (copy_to_user (\<lambda>a. None) 0x7000 (slotData defs0 apeReady (outIndex apeReady))) \<noteq> 0 \<and>
   (\<exists>ape' um'.
      cdevRead defs0 apeReady (\<lambda>a. None) False 0x7000 4096 = Some (4096, ape', um') \<and>
      numAvailable ape' = 0 \<and> numSubmitted ape' = 32 \<and> unat (outIndex ape') = 1 \<and>
      length (writes (bar ape')) = 2)"
proof -
  have h1: "BUF_SIZE defs0 \<le> unat (4096 :: size_t)" by (simp add: defs0_def)
  have h2: "0 < numAvailable apeReady" by (simp add: apeReady_def)
  have h3: "fst (copy_to_user (\<lambda>a. None) 0x7000
                  (slotData defs0 apeReady (outIndex apeReady))) \<noteq> 0"
    by (simp add: copy_to_user_fault slotData_def defs0_def)
  from cdevRead_copy_fault_not_reported [OF h1 h2 h3, of False]
  obtain ape' where
    "cdevRead defs0 apeReady (\<lambda>a. None) False 0x7000 4096 =
       Some (int (BUF_SIZE defs0), ape',
             snd (copy_to_user (\<lambda>a. None) 0x7000 (slotData defs0 apeReady (outIndex apeReady))))"
    "numAvailable ape' = numAvailable apeReady - 1"
    "numSubmitted ape' = numSubmitted apeReady + 1"
    "unat (outIndex ape') = (unat (outIndex apeReady) + 1) mod unat NUM_BUFS"
    "writes (bar ape') =
       writes (bar apeReady) @
         submission defs0 (bufferArrayBus apeReady) (unat (outIndex apeReady))"
    by blast
  then have "\<exists>um'. cdevRead defs0 apeReady (\<lambda>a. None) False 0x7000 4096 = Some (4096, ape', um') \<and>
      numAvailable ape' = 0 \<and> numSubmitted ape' = 32 \<and> unat (outIndex ape') = 1 \<and>
      length (writes (bar ape')) = 2"
    by (simp add: defs0_def apeReady_def bar0_def unat_NUM_BUFS submission_def)
  with h1 h2 h3 show ?thesis by blast
qed

section \<open>The control path\<close>

lemma cdevIOCtl_cmdlist:
  "cmdlistCall D um cmd arg kl \<Longrightarrow>
   cdevIOCtl D ape um cmd arg = cmdLoop D ape um (cmds kl) (numCmds kl)"
  by (auto simp: cmdlistCall_def cdevIOCtl_def Let_def split: if_splits)

lemma cmdLoop_0: "cmdLoop D ape um ucp 0 = (0, ape, um)"
  by (simp add: cmdLoop.simps)

lemma cmdLoop_Inl:
  "n \<noteq> 0 \<Longrightarrow> execCmd D ape um ucp = Inl e \<Longrightarrow> cmdLoop D ape um ucp n = (e, ape, um)"
  by (subst cmdLoop.simps) simp

lemma cmdLoop_Inr:
  "n \<noteq> 0 \<Longrightarrow> execCmd D ape um ucp = Inr (ape1, um1) \<Longrightarrow>
   cmdLoop D ape um ucp n = cmdLoop D ape1 um1 (ucp + sizeof_Cmd) (n - 1)"
  by (subst cmdLoop.simps) simp

lemma execCmd_Inl: "execCmd D ape um ucp = Inl e \<Longrightarrow> e = - EFAULT"
  by (auto simp: execCmd_def Let_def split: option.splits if_splits)

lemma put_user_val_frame:
  "put_user_val um v ucp = Some um1 \<Longrightarrow>
   (\<forall>a. a \<noteq> ucp \<longrightarrow> cmdAt um1 a = cmdAt um a) \<and>
   cmdListAt um1 = cmdListAt um \<and> access_ok um1 = access_ok um"
  by (auto simp: put_user_val_def split: option.splits prod.splits bool.splits)

lemma execCmd_frame:
  assumes "execCmd D ape um ucp = Inr (ape1, um1)"
  shows "(\<forall>a. a \<noteq> ucp \<longrightarrow> cmdAt um1 a = cmdAt um a) \<and>
         writable (bar ape1) = writable (bar ape) \<and>
         bufferArrayBus ape1 = bufferArrayBus ape"
  using assms
  by (auto simp: execCmd_def Let_def submitDmaReq_fields iowrite32_def
        dest!: put_user_val_frame split: option.splits if_splits)

lemma execCmd_unknown:
  "cmdAt um ucp = Some (kc, w) \<Longrightarrow> unknownOp D kc \<Longrightarrow> execCmd D ape um ucp = Inl (- EFAULT)"
  by (simp add: execCmd_def copy_from_user_Cmd_def unknownOp_def)

lemma cmdSlot_0: "cmdSlot base 0 = base"
  by (simp add: cmdSlot_def)

lemma cmdSlot_Suc: "cmdSlot base (Suc i) = cmdSlot (base + sizeof_Cmd) i"
  by (simp add: cmdSlot_def algebra_simps)

lemma cmdSlot_neq_base:
  assumes "0 < i" and "i < 2 ^ 32"
  shows "cmdSlot base i \<noteq> base"
proof -
  have "i * 12 < 2 ^ 64" using assms(2) by simp
  then have "unat (of_nat (i * 12) :: 64 word) = i * 12"
    by (simp add: unat_of_nat del: of_nat_mult)
  with assms(1) have "(of_nat (i * 12) :: 64 word) \<noteq> 0"
    by (metis mult_eq_0_iff not_gr_zero unat_0 zero_neq_numeral)
  then show ?thesis
    by (simp add: cmdSlot_def sizeof_Cmd_def)
qed

lemma cmdlistCall_userBatch: "cmdlistCall defs0 (userBatch n slots) 0xC0106600 0x5000 (klAt n)"
  by (simp add: cmdlistCall_def userBatch_def defs0_def IOC_TYPE_def IOC_NR_def IOC_DIR_def
        IOC_READ_def)

lemma unat_pred: "n \<noteq> 0 \<Longrightarrow> unat (n - 1 :: u32) = unat n - 1"
  by (simp add: unat_minus_one)

lemma cmdLoop_unknown:
  "i < unat n \<Longrightarrow> cmdAt um (cmdSlot ucp i) = Some (kc, w) \<Longrightarrow> unknownOp D kc \<Longrightarrow>
   fst (cmdLoop D ape um ucp n) = - EFAULT"
proof (induction i arbitrary: ape um ucp n)
  case 0
  then have n: "n \<noteq> 0" by auto
  from 0 have "execCmd D ape um ucp = Inl (- EFAULT)"
    by (simp add: execCmd_unknown cmdSlot_0)
  with n show ?case by (simp add: cmdLoop_Inl)
next
  case (Suc i)
  then have n: "n \<noteq> 0" by auto
  show ?case
  proof (cases "execCmd D ape um ucp")
    case (Inl e)
    then have "e = - EFAULT" by (rule execCmd_Inl)
    with n Inl show ?thesis by (simp add: cmdLoop_Inl)
  next
    case (Inr p)
    obtain ape1 um1 where p: "p = (ape1, um1)" by (cases p)
    have i: "i < unat (n - 1)" using Suc.prems(1) n by (simp add: unat_pred)
    have "unat n < 2 ^ 32" using unsigned_less [of n] by simp
    with Suc.prems(1) have "Suc i < 2 ^ 32" by simp
    then have "cmdSlot ucp (Suc i) \<noteq> ucp" by (intro cmdSlot_neq_base) simp_all
    with execCmd_frame [OF Inr [unfolded p]]
    have "cmdAt um1 (cmdSlot ucp (Suc i)) = cmdAt um (cmdSlot ucp (Suc i))" by simp
    with Suc.prems(2) have "cmdAt um1 (cmdSlot (ucp + sizeof_Cmd) i) = Some (kc, w)"
      by (simp add: cmdSlot_Suc)
    from Suc.IH [OF i this Suc.prems(3)]
    have "fst (cmdLoop D ape1 um1 (ucp + sizeof_Cmd) (n - 1)) = - EFAULT" .
    with n Inr p show ?thesis by (simp add: cmdLoop_Inr)
  qed
qed

lemma execCmd_start:
  assumes "cmdAt um ucp = Some (kc, w)" and "op kc = OP_SD D"
    and "OP_SD D \<noteq> OP_RD D" and "OP_SD D \<noteq> OP_WR D"
  shows "execCmd D ape um ucp =
           Inr (submitDmaReq (ape\<lparr>outIndex := 0, numAvailable := 0, numSubmitted := 1\<rparr>)
                  (bufferArrayBus ape) (numTLPs D), um)"
  using assms by (simp add: execCmd_def copy_from_user_Cmd_def Let_def)

text \<open>
  Claim C7. For every ring state, executing a START command sets \<open>numAvailable = 0\<close>
  and \<open>outIndex = 0\<close>, sets \<open>numSubmitted = 1\<close>, and submits slot 0: the pool's base bus
  address goes to the DMA base register (word offset 1) and the TLP count
  \<open>BUF_SIZE/128\<close> to the DMA control register (word offset 3). Stated for a batch whose
  first command is START (the op-codes being distinct): the rest of the batch runs from
  that state, and a batch of START alone returns 0 in it.
\<close>

theorem start_command:
  assumes "cmdlistCall D um cmd arg kl"
    and "numCmds kl \<noteq> 0"
    and "cmdAt um (cmds kl) = Some (kc, w)"
    and "op kc = OP_SD D"
    and "OP_SD D \<noteq> OP_RD D" and "OP_SD D \<noteq> OP_WR D"
  shows "\<exists>ape'.
           execCmd D ape um (cmds kl) = Inr (ape', um) \<and>
           cdevIOCtl D ape um cmd arg =
             cmdLoop D ape' um (cmds kl + sizeof_Cmd) (numCmds kl - 1) \<and>
           (numCmds kl = 1 \<longrightarrow> cdevIOCtl D ape um cmd arg = (0, ape', um)) \<and>
           numAvailable ape' = 0 \<and> outIndex ape' = 0 \<and> numSubmitted ape' = 1 \<and>
           writes (bar ape') =
             writes (bar ape) @
               [(1, ucast (bufferArrayBus ape)), (3, of_nat (BUF_SIZE D div 128))] \<and>
           submission D (bufferArrayBus ape) 0 =
             [(1, ucast (bufferArrayBus ape)), (3, of_nat (BUF_SIZE D div 128))] \<and>
           bufferArrayBus ape' = bufferArrayBus ape \<and>
           bufferArrayVirt ape' = bufferArrayVirt ape"
proof -
  define ape' where "ape' = submitDmaReq (ape\<lparr>outIndex := 0, numAvailable := 0, numSubmitted := 1\<rparr>)
                  (bufferArrayBus ape) (numTLPs D)"
  have ex: "execCmd D ape um (cmds kl) = Inr (ape', um)"
    unfolding ape'_def using assms(3-6) by (rule execCmd_start)
  have run: "cdevIOCtl D ape um cmd arg = cmdLoop D ape' um (cmds kl + sizeof_Cmd) (numCmds kl - 1)"
    using assms(1,2) ex by (simp add: cdevIOCtl_cmdlist cmdLoop_Inr)
  have one: "cdevIOCtl D ape um cmd arg = (0, ape', um)" if "numCmds kl = 1"
    unfolding run using that by (simp add: cmdLoop_0)
  have fields: "numAvailable ape' = 0" "outIndex ape' = 0" "numSubmitted ape' = 1"
    "bufferArrayBus ape' = bufferArrayBus ape" "bufferArrayVirt ape' = bufferArrayVirt ape"
    "writes (bar ape') = writes (bar ape) @
               [(1, ucast (bufferArrayBus ape)), (3, of_nat (BUF_SIZE D div 128))]"
    by (simp_all add: ape'_def submitDmaReq_fields DMABASE_def DMACTRL_def numTLPs_def)
  have sub: "submission D (bufferArrayBus ape) 0 =
             [(1, ucast (bufferArrayBus ape)), (3, of_nat (BUF_SIZE D div 128))]"
    by (simp add: submission_def DMABASE_def DMACTRL_def numTLPs_def)
  from ex run one fields sub show ?thesis by blast
qed

theorem start_command_witness:
  "cmdlistCall defs0 umStart 0xC0106600 0x5000 (klAt 1) \<and>
   numCmds (klAt 1) \<noteq> 0 \<and>
   cmdAt umStart (cmds (klAt 1)) = Some (\<lparr>op = 2, reg = 0, val = 0\<rparr>, True) \<and>
   op \<lparr>op = 2, reg = 0, val = 0\<rparr> = OP_SD defs0 \<and>
   OP_SD defs0 \<noteq> OP_RD defs0 \<and> OP_SD defs0 \<noteq> OP_WR defs0 \<and>
   (\<exists>ape'. cdevIOCtl defs0 apeReady umStart 0xC0106600 0x5000 = (0, ape', umStart) \<and>
      numAvailable ape' = 0 \<and> outIndex ape' = 0 \<and> numSubmitted ape' = 1 \<and>
      writes (bar ape') = [(1, 0x10000000), (3, 32)])"
proof -
  have h1: "cmdlistCall defs0 umStart 0xC0106600 0x5000 (klAt 1)"
    unfolding umStart_def by (rule cmdlistCall_userBatch)
  have h2: "numCmds (klAt 1) \<noteq> 0" by (simp add: klAt_def)
  have h3: "cmdAt umStart (cmds (klAt 1)) = Some (\<lparr>op = 2, reg = 0, val = 0\<rparr>, True)"
    by (simp add: umStart_def userBatch_def klAt_def)
  have h4: "op \<lparr>op = 2, reg = 0, val = 0\<rparr> = OP_SD defs0" by (simp add: defs0_def)
  have h5: "OP_SD defs0 \<noteq> OP_RD defs0" by (simp add: defs0_def)
  have h6: "OP_SD defs0 \<noteq> OP_WR defs0" by (simp add: defs0_def)
  from start_command [OF h1 h2 h3 h4 h5 h6, of apeReady]
  obtain ape' where
    "numCmds (klAt 1) = 1 \<longrightarrow> cdevIOCtl defs0 apeReady umStart 0xC0106600 0x5000 = (0, ape', umStart)"
    "numAvailable ape' = 0" "outIndex ape' = 0" "numSubmitted ape' = 1"
    "writes (bar ape') =
       writes (bar apeReady) @
         [(1, ucast (bufferArrayBus apeReady)), (3, of_nat (BUF_SIZE defs0 div 128))]"
    by blast
  then have "cdevIOCtl defs0 apeReady umStart 0xC0106600 0x5000 = (0, ape', umStart) \<and>
      numAvailable ape' = 0 \<and> outIndex ape' = 0 \<and> numSubmitted ape' = 1 \<and>
      writes (bar ape') = [(1, 0x10000000), (3, 32)]"
    by (simp add: klAt_def apeReady_def bar0_def defs0_def)
  with h1 h2 h3 h4 h5 h6 show ?thesis by blast
qed

text \<open>
  Claim C8. For every command batch containing a command whose op-code is none of
  READ, WRITE and START, the control path fails the batch with the "bad address" error
  (\<open>-EFAULT\<close>, that is -14); when that command is the first one (so in every
  single-command batch), the ring counters, the device registers and the caller's
  memory are as they were before the call.
\<close>

theorem unknown_op_fails_batch:
  assumes "cmdlistCall D um cmd arg kl"
    and "i < unat (numCmds kl)"
    and "cmdAt um (cmdSlot (cmds kl) i) = Some (kc, w)"
    and "unknownOp D kc"
  shows "fst (cdevIOCtl D ape um cmd arg) = - EFAULT \<and> - EFAULT = - 14 \<and>
         (i = 0 \<longrightarrow> cdevIOCtl D ape um cmd arg = (- EFAULT, ape, um))"
proof -
  have run: "cdevIOCtl D ape um cmd arg = cmdLoop D ape um (cmds kl) (numCmds kl)"
    using assms(1) by (rule cdevIOCtl_cmdlist)
  have a: "fst (cdevIOCtl D ape um cmd arg) = - EFAULT"
    unfolding run using assms(2-4) by (rule cmdLoop_unknown)
  have b: "cdevIOCtl D ape um cmd arg = (- EFAULT, ape, um)" if "i = 0"
  proof -
    from assms(2) have n: "numCmds kl \<noteq> 0" by auto
    from that assms(3,4) have "execCmd D ape um (cmds kl) = Inl (- EFAULT)"
      by (simp add: execCmd_unknown cmdSlot_0)
    with n show ?thesis unfolding run by (simp add: cmdLoop_Inl)
  qed
  from a b show ?thesis by (simp add: EFAULT_def)
qed

theorem unknown_op_fails_batch_witness:
  "cmdlistCall defs0 umUnknown 0xC0106600 0x5000 (klAt 1) \<and>
   0 < unat (numCmds (klAt 1)) \<and>
   cmdAt umUnknown (cmdSlot (cmds (klAt 1)) 0) = Some (\<lparr>op = 99, reg = 0, val = 0\<rparr>, True) \<and>
   unknownOp defs0 \<lparr>op = 99, reg = 0, val = 0\<rparr> \<and>
   cdevIOCtl defs0 apeIdle umUnknown 0xC0106600 0x5000 = (- 14, apeIdle, umUnknown)"
proof -
  have h1: "cmdlistCall defs0 umUnknown 0xC0106600 0x5000 (klAt 1)"
    unfolding umUnknown_def by (rule cmdlistCall_userBatch)
  have h2: "0 < unat (numCmds (klAt 1))" by (simp add: klAt_def)
  have h3: "cmdAt umUnknown (cmdSlot (cmds (klAt 1)) 0) =
              Some (\<lparr>op = 99, reg = 0, val = 0\<rparr>, True)"
    by (simp add: umUnknown_def userBatch_def klAt_def cmdSlot_0)
  have h4: "unknownOp defs0 \<lparr>op = 99, reg = 0, val = 0\<rparr>"
    by (simp add: unknownOp_def defs0_def)
  from unknown_op_fails_batch [OF h1 h2 h3 h4, of apeIdle]
  have "cdevIOCtl defs0 apeIdle umUnknown 0xC0106600 0x5000 = (- 14, apeIdle, umUnknown)"
    by (simp add: EFAULT_def)
  with h1 h2 h3 h4 show ?thesis by blast
qed

text \<open>
  The command loop as a whole: it changes the caller's memory only in the slots of the
  batch, never the writability of a register, and a batch whose first \<open>i\<close> commands
  run to the end continues from the state they leave.
\<close>

lemma cmdSlot_add: "cmdSlot (cmdSlot base i) j = cmdSlot base (i + j)"
  by (simp add: cmdSlot_def algebra_simps)

lemma cmdSlot_inj:
  assumes "i < j" and "j < 2 ^ 32"
  shows "cmdSlot base j \<noteq> cmdSlot base i"
proof -
  have "cmdSlot base j = cmdSlot (cmdSlot base i) (j - i)"
    using assms(1) by (simp add: cmdSlot_add)
  moreover have "cmdSlot (cmdSlot base i) (j - i) \<noteq> cmdSlot base i"
    using assms by (intro cmdSlot_neq_base) simp_all
  ultimately show ?thesis by simp
qed

lemma cmdLoop_frame:
  "unat n = k \<Longrightarrow> cmdLoop D ape um ucp n = (r, ape', um') \<Longrightarrow>
   (\<forall>a. (\<forall>j<k. a \<noteq> cmdSlot ucp j) \<longrightarrow> cmdAt um' a = cmdAt um a) \<and>
   writable (bar ape') = writable (bar ape)"
proof (induction k arbitrary: n ape um ucp)
  case 0
  then have "n = 0" by (simp add: unat_eq_0)
  with 0 show ?case by (simp add: cmdLoop_0)
next
  case (Suc k)
  then have n: "n \<noteq> 0" by auto
  show ?case
  proof (cases "execCmd D ape um ucp")
    case (Inl e)
    with n Suc.prems show ?thesis by (simp add: cmdLoop_Inl)
  next
    case (Inr p)
    obtain ape1 um1 where p: "p = (ape1, um1)" by (cases p)
    have k: "unat (n - 1) = k" using Suc.prems(1) n by (simp add: unat_pred)
    have rest: "cmdLoop D ape1 um1 (ucp + sizeof_Cmd) (n - 1) = (r, ape', um')"
      using n Inr p Suc.prems(2) by (simp add: cmdLoop_Inr)
    note F = execCmd_frame [OF Inr [unfolded p]]
    note IH = Suc.IH [OF k rest]
    have "cmdAt um' a = cmdAt um a" if a: "\<forall>j<Suc k. a \<noteq> cmdSlot ucp j" for a
    proof -
      from a have "a \<noteq> ucp" using cmdSlot_0 [of ucp] by (metis zero_less_Suc)
      with F have 1: "cmdAt um1 a = cmdAt um a" by simp
      have "\<forall>j<k. a \<noteq> cmdSlot (ucp + sizeof_Cmd) j"
        using a by (simp add: cmdSlot_Suc [symmetric])
      with IH have "cmdAt um' a = cmdAt um1 a" by simp
      with 1 show ?thesis by simp
    qed
    moreover have "writable (bar ape') = writable (bar ape)" using IH F by simp
    ultimately show ?thesis by blast
  qed
qed

lemma cmdLoop_split:
  "i \<le> unat n \<Longrightarrow> cmdLoop D ape um ucp (of_nat i) = (0, ape_i, um_i) \<Longrightarrow>
   cmdLoop D ape um ucp n = cmdLoop D ape_i um_i (cmdSlot ucp i) (n - of_nat i)"
proof (induction i arbitrary: n ape um ucp)
  case 0
  then show ?case by (simp add: cmdLoop_0 cmdSlot_0)
next
  case (Suc i)
  then have n: "n \<noteq> 0" by auto
  have "unat n < 2 ^ 32" using unsigned_less [of n] by simp
  with Suc.prems(1) have small: "Suc i < 2 ^ 32" by simp
  then have "unat (of_nat (Suc i) :: u32) = Suc i"
    by (simp add: unat_of_nat del: of_nat_Suc)
  then have i1: "(of_nat (Suc i) :: u32) \<noteq> 0" by (metis nat.simps(3) unat_0)
  have pred: "(of_nat (Suc i) :: u32) - 1 = of_nat i" by simp
  have i: "i \<le> unat (n - 1)" using Suc.prems(1) n by (simp add: unat_pred)
  show ?case
  proof (cases "execCmd D ape um ucp")
    case (Inl e)
    then have "e = - EFAULT" by (rule execCmd_Inl)
    with i1 Inl Suc.prems(2) show ?thesis
      by (simp add: cmdLoop_Inl EFAULT_def del: of_nat_Suc)
  next
    case (Inr p)
    obtain ape1 um1 where p: "p = (ape1, um1)" by (cases p)
    have "cmdLoop D ape um ucp (of_nat (Suc i)) =
            cmdLoop D ape1 um1 (ucp + sizeof_Cmd) (of_nat i)"
      using cmdLoop_Inr [OF i1 Inr [unfolded p]] unfolding pred .
    with Suc.prems(2) have pre: "cmdLoop D ape1 um1 (ucp + sizeof_Cmd) (of_nat i) = (0, ape_i, um_i)"
      by simp
    have "cmdLoop D ape um ucp n = cmdLoop D ape1 um1 (ucp + sizeof_Cmd) (n - 1)"
      using n Inr p by (simp add: cmdLoop_Inr)
    also have "\<dots> = cmdLoop D ape_i um_i (cmdSlot (ucp + sizeof_Cmd) i) (n - 1 - of_nat i)"
      using i pre by (rule Suc.IH)
    also have "\<dots> = cmdLoop D ape_i um_i (cmdSlot ucp (Suc i)) (n - of_nat (Suc i))"
      by (simp add: cmdSlot_Suc diff_diff_eq)
    finally show ?thesis .
  qed
qed

lemma execCmd_fails:
  "cmdFails D um ucp \<Longrightarrow> execCmd D ape um ucp = Inl (- EFAULT)"
  by (auto simp: cmdFails_def execCmd_def copy_from_user_Cmd_def put_user_val_def unknownOp_def
        Let_def split: option.splits bool.splits)

lemma execCmd_Inl_fails:
  "execCmd D ape um ucp = Inl e \<Longrightarrow> cmdFails D um ucp"
  by (auto simp: cmdFails_def execCmd_def copy_from_user_Cmd_def put_user_val_def unknownOp_def
        Let_def split: option.splits bool.splits if_splits)

text \<open>
  Claim C10. For every command batch that fails partway through, on an unknown op-code
  or a user-memory copy fault at its command \<open>i\<close>, the call returns \<open>-EFAULT\<close> in
  exactly the state that running the first \<open>i\<close> commands leaves: register WRITEs remain
  applied, READ write-backs remain in the caller's array, and the ring reset and the
  slot-0 submission of a START are not undone. The batch is not atomic on error.
\<close>

theorem batch_not_atomic:
  assumes "cmdlistCall D um cmd arg kl"
    and "i < unat (numCmds kl)"
    and "cmdLoop D ape um (cmds kl) (of_nat i) = (0, ape_i, um_i)"
    and "cmdFails D um_i (cmdSlot (cmds kl) i)"
  shows "cdevIOCtl D ape um cmd arg = (- EFAULT, ape_i, um_i)"
proof -
  have "unat (numCmds kl) < 2 ^ 32" using unsigned_less [of "numCmds kl"] by simp
  with assms(2) have "unat (of_nat i :: u32) = i" by (simp add: unat_of_nat)
  with assms(2) have "unat (of_nat i :: u32) < unat (numCmds kl)" by simp
  then have "of_nat i < numCmds kl" by (simp add: word_less_nat_alt)
  then have rest: "numCmds kl - of_nat i \<noteq> 0" by simp
  have "cdevIOCtl D ape um cmd arg = cmdLoop D ape um (cmds kl) (numCmds kl)"
    using assms(1) by (rule cdevIOCtl_cmdlist)
  also have "\<dots> = cmdLoop D ape_i um_i (cmdSlot (cmds kl) i) (numCmds kl - of_nat i)"
    using assms(2,3) by (intro cmdLoop_split) simp_all
  also have "\<dots> = (- EFAULT, ape_i, um_i)"
    using rest execCmd_fails [OF assms(4)] by (rule cmdLoop_Inl)
  finally show ?thesis .
qed

lemma partial_prefix:
  "\<exists>ape2. cmdLoop defs0 apeReady umPartial 0x6000 2 = (0, ape2, umPartial) \<and>
     regs (bar ape2) 11 = 0x1234 \<and>
     numAvailable ape2 = 0 \<and> outIndex ape2 = 0 \<and> numSubmitted ape2 = 1 \<and>
     writes (bar ape2) = [(11, 0x1234), (1, 0x10000000), (3, 32)]"
proof -
  define ape1 where "ape1 = apeReady\<lparr>bar := iowrite32 0x1234 11 (bar apeReady)\<rparr>"
  define ape2 where "ape2 = submitDmaReq (ape1\<lparr>outIndex := 0, numAvailable := 0, numSubmitted := 1\<rparr>)
                  (bufferArrayBus ape1) (numTLPs defs0)"
  have e1: "execCmd defs0 apeReady umPartial 0x6000 = Inr (ape1, umPartial)"
    by (simp add: execCmd_def copy_from_user_Cmd_def umPartial_def userBatch_def defs0_def
          ape1_def Let_def)
  have e2: "execCmd defs0 ape1 umPartial 0x600C = Inr (ape2, umPartial)"
    unfolding ape2_def
    by (rule execCmd_start [where kc = "\<lparr>op = 2, reg = 0, val = 0\<rparr>" and w = True])
       (simp_all add: umPartial_def userBatch_def defs0_def)
  have "cmdLoop defs0 apeReady umPartial 0x6000 2 = cmdLoop defs0 ape1 umPartial 0x600C 1"
    using cmdLoop_Inr [OF _ e1, of 2] by (simp add: sizeof_Cmd_def)
  also have "\<dots> = cmdLoop defs0 ape2 umPartial 0x6018 0"
    using cmdLoop_Inr [OF _ e2, of 1] by (simp add: sizeof_Cmd_def)
  finally have run: "cmdLoop defs0 apeReady umPartial 0x6000 2 = (0, ape2, umPartial)"
    by (simp add: cmdLoop_0)
  have "regs (bar ape2) 11 = 0x1234 \<and>
     numAvailable ape2 = 0 \<and> outIndex ape2 = 0 \<and> numSubmitted ape2 = 1 \<and>
     writes (bar ape2) = [(11, 0x1234), (1, 0x10000000), (3, 32)]"
    by (simp add: ape2_def ape1_def submitDmaReq_def iowrite32_def apeReady_def bar0_def
          DMABASE_def DMACTRL_def numTLPs_def defs0_def)
  with run show ?thesis by blast
qed

theorem batch_not_atomic_witness:
  "cmdlistCall defs0 umPartial 0xC0106600 0x5000 (klAt 3) \<and>
   2 < unat (numCmds (klAt 3)) \<and>
   cmdFails defs0 umPartial (cmdSlot (cmds (klAt 3)) 2) \<and>
   (\<exists>ape2. cmdLoop defs0 apeReady umPartial (cmds (klAt 3)) (of_nat 2) = (0, ape2, umPartial) \<and>
      cdevIOCtl defs0 apeReady umPartial 0xC0106600 0x5000 = (- 14, ape2, umPartial) \<and>
      regs (bar ape2) 11 = 0x1234 \<and>
      numAvailable ape2 = 0 \<and> outIndex ape2 = 0 \<and> numSubmitted ape2 = 1 \<and>
      writes (bar ape2) = [(11, 0x1234), (1, 0x10000000), (3, 32)])"
proof -
  have h1: "cmdlistCall defs0 umPartial 0xC0106600 0x5000 (klAt 3)"
    unfolding umPartial_def by (rule cmdlistCall_userBatch)
  have h2: "2 < unat (numCmds (klAt 3))" by (simp add: klAt_def)
  have h4: "cmdFails defs0 umPartial (cmdSlot (cmds (klAt 3)) 2)"
    by (simp add: cmdFails_def umPartial_def userBatch_def klAt_def cmdSlot_def sizeof_Cmd_def
          unknownOp_def defs0_def)
  from partial_prefix obtain ape2 where
    h3: "cmdLoop defs0 apeReady umPartial (cmds (klAt 3)) (of_nat 2) = (0, ape2, umPartial)"
    and rest: "regs (bar ape2) 11 = 0x1234" "numAvailable ape2 = 0" "outIndex ape2 = 0"
      "numSubmitted ape2 = 1" "writes (bar ape2) = [(11, 0x1234), (1, 0x10000000), (3, 32)]"
    by (auto simp: klAt_def)
  from batch_not_atomic [OF h1 h2 h3 h4]
  have "cdevIOCtl defs0 apeReady umPartial 0xC0106600 0x5000 = (- 14, ape2, umPartial)"
    by (simp add: EFAULT_def)
  with h1 h2 h3 h4 rest show ?thesis by blast
qed

text \<open>
  WRITE and READ address the BAR0 word at offset \<open>1 + reg * 2\<close>; a READ stores what it
  read into the \<open>val\<close> field of its own slot.
\<close>

lemma execCmd_write:
  assumes "cmdAt um ucp = Some (kw, w)" and "op kw = OP_WR D" and "OP_WR D \<noteq> OP_RD D"
  shows "execCmd D ape um ucp =
           Inr (ape\<lparr>bar := iowrite32 (val kw) (1 + reg kw * 2) (bar ape)\<rparr>, um)"
  using assms by (simp add: execCmd_def copy_from_user_Cmd_def Let_def)

lemma execCmd_read:
  assumes "cmdAt um ucp = Some (kr, True)" and "op kr = OP_RD D"
  shows "execCmd D ape um ucp =
           Inr (ape, um\<lparr>cmdAt := (cmdAt um)(ucp \<mapsto>
                  (kr\<lparr>val := ioread32 (1 + reg kr * 2) (bar ape)\<rparr>, True))\<rparr>)"
  using assms by (simp add: execCmd_def copy_from_user_Cmd_def put_user_val_def Let_def)

lemma readback: "writable b r \<Longrightarrow> ioread32 r (iowrite32 v r b) = v"
  by (simp add: ioread32_def iowrite32_def)

lemma unat_sub_of_nat:
  assumes "i \<le> unat (n :: u32)"
  shows "unat (n - of_nat i) = unat n - i"
proof -
  have "unat n < 2 ^ 32" using unsigned_less [of n] by simp
  with assms have i: "unat (of_nat i :: u32) = i" by (simp add: unat_of_nat)
  with assms have "of_nat i \<le> n" by (simp add: word_le_nat_alt)
  then show ?thesis using i by (simp add: unat_sub)
qed

text \<open>
  Claim C9. For every register index \<open>reg\<close> backed by a writable device location (the
  BAR0 word at offset \<open>2 * reg + 1\<close>) and every 32-bit value \<open>v\<close>, executing a command
  batch that contains \<open>WRITE(reg, v)\<close> followed by \<open>READ(reg)\<close> stores \<open>v\<close> into the
  \<open>val\<close> field of the READ command's slot in the caller's command array. Stated for
  the pair at the indices \<open>i\<close> and \<open>i + 1\<close> of any batch whose first \<open>i\<close> commands run
  to the end, with the READ's slot writable and the two op-codes distinct; commands
  after the pair do not change the slot.
\<close>

theorem write_then_read:
  assumes "cmdlistCall D um cmd arg kl"
    and "Suc i < unat (numCmds kl)"
    and "fst (cmdLoop D ape um (cmds kl) (of_nat i)) = 0"
    and "cmdAt um (cmdSlot (cmds kl) i) = Some (kw, w)"
    and "op kw = OP_WR D" and "OP_WR D \<noteq> OP_RD D"
    and "cmdAt um (cmdSlot (cmds kl) (Suc i)) = Some (kr, True)"
    and "op kr = OP_RD D" and "reg kr = reg kw"
    and "writable (bar ape) (1 + reg kw * 2)"
  shows "cmdAt (snd (snd (cdevIOCtl D ape um cmd arg))) (cmdSlot (cmds kl) (Suc i)) =
           Some (kr\<lparr>val := val kw\<rparr>, True)"
proof -
  let ?n = "numCmds kl" and ?base = "cmds kl"
  let ?r = "1 + reg kw * 2"
  have nlt: "unat ?n < 2 ^ 32" using unsigned_less [of ?n] by simp
  obtain ape_i um_i where pre: "cmdLoop D ape um ?base (of_nat i) = (0, ape_i, um_i)"
    using assms(3) by (cases "cmdLoop D ape um ?base (of_nat i)") auto
  have ui: "unat (of_nat i :: u32) = i" using assms(2) nlt by (simp add: unat_of_nat)
  note F = cmdLoop_frame [OF ui pre]
  have s0: "cmdAt um_i (cmdSlot ?base i) = Some (kw, w)"
  proof -
    have "\<forall>j<i. cmdSlot ?base i \<noteq> cmdSlot ?base j"
    proof (intro allI impI)
      fix j assume "j < i"
      moreover have "i < 2 ^ 32" using assms(2) nlt by simp
      ultimately show "cmdSlot ?base i \<noteq> cmdSlot ?base j" by (rule cmdSlot_inj)
    qed
    with F assms(4) show ?thesis by simp
  qed
  have s1: "cmdAt um_i (cmdSlot ?base (Suc i)) = Some (kr, True)"
  proof -
    have "\<forall>j<i. cmdSlot ?base (Suc i) \<noteq> cmdSlot ?base j"
    proof (intro allI impI)
      fix j assume "j < i"
      then have "j < Suc i" by simp
      moreover have "Suc i < 2 ^ 32" using assms(2) nlt by simp
      ultimately show "cmdSlot ?base (Suc i) \<noteq> cmdSlot ?base j" by (rule cmdSlot_inj)
    qed
    with F assms(7) show ?thesis by simp
  qed
  have wr: "writable (bar ape_i) ?r" using F assms(10) by simp
  define m where "m = ?n - of_nat i"
  have m: "unat m = unat ?n - i" unfolding m_def using assms(2) by (intro unat_sub_of_nat) simp
  have m0: "m \<noteq> 0" using m assms(2) by auto
  have m1: "m - 1 \<noteq> 0"
  proof
    assume "m - 1 = 0"
    then have "unat (m - 1) = 0" by simp
    then show False using m m0 assms(2) by (simp add: unat_pred)
  qed
  have p1: "unat (m - 1) = unat m - 1" using m0 by (rule unat_pred)
  have p2: "unat (m - 1 - 1) = unat (m - 1) - 1" using m1 by (rule unat_pred)
  have m2: "unat (m - 1 - 1) = unat ?n - i - 2" unfolding p2 p1 m by simp
  define ape_w where "ape_w = ape_i\<lparr>bar := iowrite32 (val kw) ?r (bar ape_i)\<rparr>"
  define um_r where "um_r = um_i\<lparr>cmdAt := (cmdAt um_i)(cmdSlot ?base (Suc i) \<mapsto>
                  (kr\<lparr>val := ioread32 (1 + reg kr * 2) (bar ape_w)\<rparr>, True))\<rparr>"
  have ew: "execCmd D ape_i um_i (cmdSlot ?base i) = Inr (ape_w, um_i)"
    unfolding ape_w_def using s0 assms(5,6) by (rule execCmd_write)
  have er: "execCmd D ape_w um_i (cmdSlot ?base (Suc i)) = Inr (ape_w, um_r)"
    unfolding um_r_def using s1 assms(8) by (rule execCmd_read)
  have next1: "cmdSlot ?base i + sizeof_Cmd = cmdSlot ?base (Suc i)"
    by (simp add: cmdSlot_def algebra_simps)
  have next2: "cmdSlot ?base (Suc i) + sizeof_Cmd = cmdSlot ?base (Suc (Suc i))"
    by (simp add: cmdSlot_def algebra_simps)
  have "cdevIOCtl D ape um cmd arg = cmdLoop D ape um ?base ?n"
    using assms(1) by (rule cdevIOCtl_cmdlist)
  also have "\<dots> = cmdLoop D ape_i um_i (cmdSlot ?base i) m"
    unfolding m_def using assms(2) pre by (intro cmdLoop_split) simp_all
  also have "\<dots> = cmdLoop D ape_w um_i (cmdSlot ?base (Suc i)) (m - 1)"
    using cmdLoop_Inr [OF m0 ew] unfolding next1 .
  also have "\<dots> = cmdLoop D ape_w um_r (cmdSlot ?base (Suc (Suc i))) (m - 1 - 1)"
    using cmdLoop_Inr [OF m1 er] unfolding next2 .
  finally have run: "cdevIOCtl D ape um cmd arg =
      cmdLoop D ape_w um_r (cmdSlot ?base (Suc (Suc i))) (m - 1 - 1)" .
  obtain r ape_f um_f where fin:
    "cmdLoop D ape_w um_r (cmdSlot ?base (Suc (Suc i))) (m - 1 - 1) = (r, ape_f, um_f)"
    by (cases "cmdLoop D ape_w um_r (cmdSlot ?base (Suc (Suc i))) (m - 1 - 1)") auto
  have "\<forall>j<unat ?n - i - 2.
          cmdSlot ?base (Suc i) \<noteq> cmdSlot (cmdSlot ?base (Suc (Suc i))) j"
  proof (intro allI impI)
    fix j assume "j < unat ?n - i - 2"
    then have "Suc (Suc i) + j < 2 ^ 32" using nlt by simp
    then have "cmdSlot ?base (Suc (Suc i) + j) \<noteq> cmdSlot ?base (Suc i)"
      by (intro cmdSlot_inj) simp_all
    then show "cmdSlot ?base (Suc i) \<noteq> cmdSlot (cmdSlot ?base (Suc (Suc i))) j"
      by (simp add: cmdSlot_add)
  qed
  with cmdLoop_frame [OF m2 fin]
  have "cmdAt um_f (cmdSlot ?base (Suc i)) = cmdAt um_r (cmdSlot ?base (Suc i))" by simp
  also have "\<dots> = Some (kr\<lparr>val := ioread32 (1 + reg kr * 2) (bar ape_w)\<rparr>, True)"
    by (simp add: um_r_def)
  also have "ioread32 (1 + reg kr * 2) (bar ape_w) = val kw"
    unfolding assms(9) ape_w_def using wr by (simp add: readback)
  finally show ?thesis unfolding run fin by simp
qed

theorem write_then_read_witness:
  "cmdlistCall defs0 umReadback 0xC0106600 0x5000 (klAt 2) \<and>
   Suc 0 < unat (numCmds (klAt 2)) \<and>
   fst (cmdLoop defs0 apeIdle umReadback (cmds (klAt 2)) (of_nat 0)) = 0 \<and>
   cmdAt umReadback (cmdSlot (cmds (klAt 2)) 0) = Some (\<lparr>op = 1, reg = 5, val = 0x1234\<rparr>, True) \<and>
   cmdAt umReadback (cmdSlot (cmds (klAt 2)) (Suc 0)) = Some (\<lparr>op = 0, reg = 5, val = 0\<rparr>, True) \<and>
   writable (bar apeIdle) (1 + 5 * 2) \<and>
   cmdAt (snd (snd (cdevIOCtl defs0 apeIdle umReadback 0xC0106600 0x5000))) 0x600C =
     Some (\<lparr>op = 0, reg = 5, val = 0x1234\<rparr>, True)"
proof -
  have h1: "cmdlistCall defs0 umReadback 0xC0106600 0x5000 (klAt 2)"
    unfolding umReadback_def by (rule cmdlistCall_userBatch)
  have h2: "Suc 0 < unat (numCmds (klAt 2))" by (simp add: klAt_def)
  have h3: "fst (cmdLoop defs0 apeIdle umReadback (cmds (klAt 2)) (of_nat 0)) = 0"
    by (simp add: cmdLoop_0)
  have h4: "cmdAt umReadback (cmdSlot (cmds (klAt 2)) 0) =
              Some (\<lparr>op = 1, reg = 5, val = 0x1234\<rparr>, True)"
    by (simp add: umReadback_def userBatch_def klAt_def cmdSlot_0)
  have h7: "cmdAt umReadback (cmdSlot (cmds (klAt 2)) (Suc 0)) =
              Some (\<lparr>op = 0, reg = 5, val = 0\<rparr>, True)"
    by (simp add: umReadback_def userBatch_def klAt_def cmdSlot_def sizeof_Cmd_def)
  have h10: "writable (bar apeIdle) (1 + reg \<lparr>op = 1, reg = 5, val = 0x1234\<rparr> * 2)"
    by (simp add: apeIdle_def bar0_def)
  from write_then_read [OF h1 h2 h3 h4 _ _ h7 _ _ h10]
  have "cmdAt (snd (snd (cdevIOCtl defs0 apeIdle umReadback 0xC0106600 0x5000)))
          (cmdSlot (cmds (klAt 2)) (Suc 0)) =
        Some (\<lparr>op = 0, reg = 5, val = 0\<rparr>\<lparr>val := val \<lparr>op = 1, reg = 5, val = 0x1234\<rparr>\<rparr>, True)"
    by (simp add: defs0_def)
  then have "cmdAt (snd (snd (cdevIOCtl defs0 apeIdle umReadback 0xC0106600 0x5000))) 0x600C =
     Some (\<lparr>op = 0, reg = 5, val = 0x1234\<rparr>, True)"
    by (simp add: klAt_def cmdSlot_def sizeof_Cmd_def)
  with h1 h2 h3 h4 h7 h10 show ?thesis by simp
qed

end
